theory Spec2Isabelle
  imports Complex_Main "HOL-Library.Multiset"
begin

section \<open>Values, errors and string primitives\<close>

text \<open>
  The repository is a Python service. Its strings are modelled as \<open>string\<close> (lists of
  8-bit characters, read as ASCII text), its unbounded integers as \<open>int\<close> or, where the
  code only ever produces a count or an index, as \<open>nat\<close>. Its floating-point similarity
  scores are modelled as exact \<open>real\<close> numbers: rounding, infinities and NaN are outside the
  model. Exceptions are values of the type \<open>error\<close>; a computation that may raise returns
  \<open>error + 'a\<close> with \<open>Inl\<close> for the raised exception.
\<close>

datatype error =
    HTTPException nat string
  | IndexError
  | KeyError
  | TesseractNotFoundError
  | OtherException string

text \<open>Metadata values: Python \<open>Any\<close>, restricted to the strings and integers the code stores.\<close>

datatype pyval = PStr string | PInt int

type_synonym metadata = "string \<rightharpoonup> pyval"

definition bind_err :: "error + 'a \<Rightarrow> ('a \<Rightarrow> error + 'b) \<Rightarrow> error + 'b" where
  "bind_err m f = (case m of Inl e \<Rightarrow> Inl e | Inr a \<Rightarrow> f a)"

definition digit_char :: "nat \<Rightarrow> char" where
  "digit_char d = ''0123456789'' ! d"

text \<open>\<open>str(n)\<close> for a non-negative integer: its decimal digits.\<close>

fun str_nat :: "nat \<Rightarrow> string" where
  "str_nat n = (if n < 10 then [digit_char n] else str_nat (n div 10) @ [digit_char (n mod 10)])"

declare str_nat.simps [simp del]

definition str_int :: "int \<Rightarrow> string" where
  "str_int i = (if i < 0 then CHR ''-'' # str_nat (nat (- i)) else str_nat (nat i))"

text \<open>What an f-string substitutes for a value: \<open>str(v)\<close>.\<close>

fun py_str :: "pyval \<Rightarrow> string" where
  "py_str (PStr s) = s"
| "py_str (PInt i) = str_int i"

text \<open>\<open>sep.join(parts)\<close>.\<close>

fun join :: "string \<Rightarrow> string list \<Rightarrow> string" where
  "join sep [] = []"
| "join sep [p] = p"
| "join sep (p # q # ps) = p @ sep @ join sep (q # ps)"

text \<open>\<open>d.get(key, default)\<close>.\<close>

definition dict_get :: "('k \<rightharpoonup> 'v) \<Rightarrow> 'k \<Rightarrow> 'v \<Rightarrow> 'v" where
  "dict_get d k dflt = (case d k of None \<Rightarrow> dflt | Some v \<Rightarrow> v)"

text \<open>\<open>d[key]\<close>: raises \<open>KeyError\<close> for a key that is absent.\<close>

definition dict_item :: "('k \<rightharpoonup> 'v) \<Rightarrow> 'k \<Rightarrow> error + 'v" where
  "dict_item d k = (case d k of None \<Rightarrow> Inl KeyError | Some v \<Rightarrow> Inr v)"

text \<open>\<open>xs[i]\<close> for an index \<open>i \<ge> 0\<close>: raises \<open>IndexError\<close> out of range.\<close>

definition index :: "'a list \<Rightarrow> nat \<Rightarrow> error + 'a" where
  "index xs i = (if i < length xs then Inr (xs ! i) else Inl IndexError)"

text \<open>\<open>xs[:k]\<close>: a negative \<open>k\<close> counts from the end of the list.\<close>

definition slice_to :: "'a list \<Rightarrow> int \<Rightarrow> 'a list" where
  "slice_to xs k = (if 0 \<le> k then take (nat k) xs else take (nat (int (length xs) + k)) xs)"

section \<open>Retrieval: \<open>app/retrieval.py\<close>\<close>

subsection \<open>\<open>_normalize_scores\<close>\<close>

text \<open>
  \<open>math.isclose(a, b)\<close> with its default tolerances \<open>rel_tol = 1e-09\<close> and
  \<open>abs_tol = 0.0\<close>, on finite values, as CPython computes it.
\<close>

definition rel_tol :: real where
  "rel_tol = 1 / 10 ^ 9"

definition abs_tol :: real where
  "abs_tol = 0"

definition isclose :: "real \<Rightarrow> real \<Rightarrow> bool" where
  "isclose a b =
     (a = b \<or> \<bar>b - a\<bar> \<le> \<bar>rel_tol * b\<bar> \<or> \<bar>b - a\<bar> \<le> \<bar>rel_tol * a\<bar> \<or> \<bar>b - a\<bar> \<le> abs_tol)"

text \<open>\<open>min(xs)\<close> and \<open>max(xs)\<close>; the code calls them on a non-empty list only.\<close>

fun py_min :: "real list \<Rightarrow> real" where
  "py_min [] = 0"
| "py_min (x # xs) = fold min xs x"

fun py_max :: "real list \<Rightarrow> real" where
  "py_max [] = 0"
| "py_max (x # xs) = fold max xs x"

definition normalize_scores :: "real list \<Rightarrow> real list" where
  "normalize_scores scores =
     (if scores = [] then []
      else
        let mn = py_min scores; mx = py_max scores in
        if isclose mx mn then map (\<lambda>_. 1) scores
        else map (\<lambda>s. (s - mn) / (mx - mn)) scores)"

subsection \<open>\<open>_format_source_attribution\<close>\<close>

definition format_source_attribution :: "metadata \<Rightarrow> string" where
  "format_source_attribution md =
     (let file_type = dict_get md ''file_type'' (PStr ''unknown'');
          source_path = dict_get md ''source_path'' (PStr ''unknown'');
          parts0 = [''Source: '' @ py_str source_path, ''Type: '' @ py_str file_type];
          parts1 = (case md ''page'' of None \<Rightarrow> parts0
                    | Some v \<Rightarrow> parts0 @ [''Page: '' @ py_str v]);
          parts2 = (case md ''chunk_index'' of None \<Rightarrow> parts1
                    | Some v \<Rightarrow> parts1 @ [''Chunk: '' @ py_str v]);
          parts3 = (case md ''uploaded_at'' of None \<Rightarrow> parts2
                    | Some v \<Rightarrow> parts2 @ [''Uploaded: '' @ py_str v])
      in join '' | '' parts3)"

subsection \<open>\<open>multimodal_query\<close>\<close>

text \<open>
  What the vector store answers to a query: a dictionary whose values are lists with one
  row per query embedding. \<open>None\<close> stands for a key that is absent (or holds \<open>None\<close>).
\<close>

record query_result =
  ids :: "string list list option"
  distances :: "real list list option"
  metadatas :: "metadata list list option"
  documents :: "string list list option"

text \<open>One entry of the merged list. The key \<open>ocr_text\<close> exists for image entries only.\<close>

record merged_result =
  id_key :: string
  score :: real
  modality :: string
  document :: "string option"
  metadata_key :: metadata
  source :: string
  ocr_text :: "pyval option"

record query_response =
  query :: string
  results :: "merged_result list"
  total_results :: nat

text \<open>The embedding models and the two collections, as the query path calls them.\<close>

type_synonym vec = "real list"

record query_env =
  q_embed_text :: "string list \<Rightarrow> string + vec list"
  q_embed_clip_text :: "string list \<Rightarrow> string + vec list"
  q_query_text :: "vec \<Rightarrow> int \<Rightarrow> string + query_result"
  q_query_images :: "vec \<Rightarrow> int \<Rightarrow> string + query_result"

text \<open>A call into a library: its exception, if any, is an exception other than those
  the code itself raises.\<close>

definition ext :: "string + 'a \<Rightarrow> error + 'a" where
  "ext r = (case r of Inl msg \<Rightarrow> Inl (OtherException msg) | Inr a \<Rightarrow> Inr a)"

text \<open>\<open>d.get(key, [[]])[0]\<close>.\<close>

definition first_row_default :: "'a list list option \<Rightarrow> error + 'a list" where
  "first_row_default v = (case v of None \<Rightarrow> Inr [] | Some rows \<Rightarrow> index rows 0)"

text \<open>\<open>d[key][0][i] if d.get(key) else dflt\<close>.\<close>

definition cell_or :: "'a list list option \<Rightarrow> nat \<Rightarrow> 'b \<Rightarrow> ('a \<Rightarrow> 'b) \<Rightarrow> error + 'b" where
  "cell_or v i dflt f =
     (case v of None \<Rightarrow> Inr dflt
      | Some rows \<Rightarrow>
          (case rows of [] \<Rightarrow> Inr dflt
           | row # _ \<Rightarrow> bind_err (index row i) (\<lambda>x. Inr (f x))))"

text \<open>The raw similarities \<open>1 - d\<close> of the first row of distances, normalized.\<close>

definition scores_of :: "query_result \<Rightarrow> real list" where
  "scores_of r =
     (let raw = (case distances r of None \<Rightarrow> []
                 | Some rows \<Rightarrow> (case rows of [] \<Rightarrow> [] | row # _ \<Rightarrow> map (\<lambda>d. 1 - d) row))
      in normalize_scores raw)"

definition score_at :: "real list \<Rightarrow> nat \<Rightarrow> real" where
  "score_at scores i = (if i < length scores then scores ! i else 0)"

definition text_entry :: "query_result \<Rightarrow> real list \<Rightarrow> nat \<Rightarrow> string \<Rightarrow> error + merged_result" where
  "text_entry r text_scores i ident =
     bind_err (cell_or (metadatas r) i Map.empty (\<lambda>m. m)) (\<lambda>md.
     bind_err (cell_or (documents r) i None Some) (\<lambda>doc.
       Inr \<lparr> id_key = ident, score = score_at text_scores i, modality = ''text'',
             document = doc, metadata_key = md, source = format_source_attribution md,
             ocr_text = None \<rparr>))"

definition image_entry :: "query_result \<Rightarrow> real list \<Rightarrow> nat \<Rightarrow> string \<Rightarrow> error + merged_result" where
  "image_entry r image_scores i ident =
     bind_err (cell_or (metadatas r) i Map.empty (\<lambda>m. m)) (\<lambda>md.
       Inr \<lparr> id_key = ident, score = score_at image_scores i, modality = ''image'',
             document = None, metadata_key = md, source = format_source_attribution md,
             ocr_text = Some (dict_get md ''ocr_text'' (PStr [])) \<rparr>)"

text \<open>\<open>for i, x in enumerate(xs): merged.append(entry(i, x))\<close>, from index \<open>i\<close> on; the
  first exception ends the loop.\<close>

fun enum_collect :: "(nat \<Rightarrow> 'a \<Rightarrow> error + 'b) \<Rightarrow> nat \<Rightarrow> 'a list \<Rightarrow> error + 'b list" where
  "enum_collect f i [] = Inr []"
| "enum_collect f i (x # xs) =
     (case f i x of Inl e \<Rightarrow> Inl e
      | Inr y \<Rightarrow> (case enum_collect f (Suc i) xs of Inl e \<Rightarrow> Inl e | Inr ys \<Rightarrow> Inr (y # ys)))"

definition text_candidates :: "query_result \<Rightarrow> error + merged_result list" where
  "text_candidates r =
     bind_err (first_row_default (ids r)) (\<lambda>row. enum_collect (text_entry r (scores_of r)) 0 row)"

definition image_candidates :: "query_result \<Rightarrow> error + merged_result list" where
  "image_candidates r =
     bind_err (first_row_default (ids r)) (\<lambda>row. enum_collect (image_entry r (scores_of r)) 0 row)"

text \<open>
  \<open>merged.sort(key=lambda x: x["score"], reverse=True)\<close>: Python's sort is stable, also
  with \<open>reverse=True\<close>. It is modelled by the stable insertion sort into descending order
  of the key: an element is put in front of the first element whose key is not larger.
\<close>

fun insert_desc :: "('a \<Rightarrow> real) \<Rightarrow> 'a \<Rightarrow> 'a list \<Rightarrow> 'a list" where
  "insert_desc key x [] = [x]"
| "insert_desc key x (y # ys) =
     (if key y \<le> key x then x # y # ys else y # insert_desc key x ys)"

definition sort_desc :: "('a \<Rightarrow> real) \<Rightarrow> 'a list \<Rightarrow> 'a list" where
  "sort_desc key xs = foldr (insert_desc key) xs []"

text \<open>Lines 131 to 133: sort the merged list and keep \<open>merged[:top_k]\<close>.\<close>

definition merge_top_k :: "merged_result list \<Rightarrow> int \<Rightarrow> merged_result list" where
  "merge_top_k merged top_k = slice_to (sort_desc score merged) top_k"

text \<open>Lines 83 to 90: the two embeddings of the query and the two searches. Each debug
  line formats \<open>len(r.get('ids', [[]])[0])\<close>, which is evaluated whatever the log level.\<close>

definition retrieve :: "query_env \<Rightarrow> string \<Rightarrow> int \<Rightarrow> error + query_result \<times> query_result" where
  "retrieve env q top_k =
     bind_err (ext (q_embed_text env [q])) (\<lambda>embs.
     bind_err (index embs 0) (\<lambda>text_emb.
     bind_err (ext (q_query_text env text_emb top_k)) (\<lambda>text_results.
     bind_err (first_row_default (ids text_results)) (\<lambda>_.
     bind_err (ext (q_embed_clip_text env [q])) (\<lambda>cembs.
     bind_err (index cembs 0) (\<lambda>clip_text_emb.
     bind_err (ext (q_query_images env clip_text_emb top_k)) (\<lambda>image_results.
     bind_err (first_row_default (ids image_results)) (\<lambda>_.
       Inr (text_results, image_results)))))))))"

definition multimodal_query :: "query_env \<Rightarrow> string \<Rightarrow> int \<Rightarrow> error + query_response" where
  "multimodal_query env q top_k =
     bind_err (retrieve env q top_k) (\<lambda>(text_results, image_results).
     bind_err (text_candidates text_results) (\<lambda>ts.
     bind_err (image_candidates image_results) (\<lambda>is.
       let final_results = merge_top_k (ts @ is) top_k in
       Inr \<lparr> query = q, results = final_results,
             total_results = length final_results \<rparr>)))"

subsection \<open>A concrete query\<close>

text \<open>Two text candidates at the distances 0.1 and 0.6, two image candidates at the
  distances 0.05 and 0.5: after normalization each modality has the scores 1 and 0.\<close>

definition demo_text_results :: query_result where
  "demo_text_results =
     \<lparr> ids = Some [[''t1'', ''t2'']], distances = Some [[1/10, 6/10]],
       metadatas = None, documents = Some [[''A'', ''B'']] \<rparr>"

definition demo_image_results :: query_result where
  "demo_image_results =
     \<lparr> ids = Some [[''i1'', ''i2'']], distances = Some [[5/100, 5/10]],
       metadatas = None, documents = None \<rparr>"

definition demo_query_env :: query_env where
  "demo_query_env =
     \<lparr> q_embed_text = (\<lambda>_. Inr [[1]]), q_embed_clip_text = (\<lambda>_. Inr [[1]]),
       q_query_text = (\<lambda>_ _. Inr demo_text_results),
       q_query_images = (\<lambda>_ _. Inr demo_image_results) \<rparr>"

definition demo_candidate :: "string \<Rightarrow> string \<Rightarrow> real \<Rightarrow> merged_result" where
  "demo_candidate ident m s =
     \<lparr> id_key = ident, score = s, modality = m, document = None, metadata_key = Map.empty,
       source = format_source_attribution Map.empty,
       ocr_text = (if m = ''image'' then Some (PStr []) else None) \<rparr>"

section \<open>Ingestion: \<open>app/ingestion.py\<close>, \<open>app/utils\<close>\<close>

subsection \<open>Strings and paths\<close>

abbreviation NL :: char where
  "NL \<equiv> CHR 0x0A"

text \<open>\<open>str.isspace\<close> on the ASCII characters: tab, line feed, vertical tab, form feed,
  carriage return, the four separators \<open>0x1C\<close> to \<open>0x1F\<close>, and the space.\<close>

definition is_space :: "char \<Rightarrow> bool" where
  "is_space c = (c \<in> set [CHR 0x09, CHR 0x0A, CHR 0x0B, CHR 0x0C, CHR 0x0D,
                           CHR 0x1C, CHR 0x1D, CHR 0x1E, CHR 0x1F, CHR 0x20])"

text \<open>\<open>s.strip()\<close>.\<close>

definition strip :: "string \<Rightarrow> string" where
  "strip s = rev (dropWhile is_space (rev (dropWhile is_space s)))"

definition lower_char :: "char \<Rightarrow> char" where
  "lower_char c =
     (case map_of (zip ''ABCDEFGHIJKLMNOPQRSTUVWXYZ'' ''abcdefghijklmnopqrstuvwxyz'') c of
        None \<Rightarrow> c | Some d \<Rightarrow> d)"

text \<open>\<open>s.lower()\<close>, on ASCII.\<close>

definition lower :: "string \<Rightarrow> string" where
  "lower s = map lower_char s"

text \<open>\<open>s.endswith(suffix)\<close>, and \<open>s.endswith((suffix1, suffix2, ...))\<close>.\<close>

definition endswith :: "string \<Rightarrow> string \<Rightarrow> bool" where
  "endswith s suf = (length suf \<le> length s \<and> drop (length s - length suf) s = suf)"

definition endswith_any :: "string \<Rightarrow> string list \<Rightarrow> bool" where
  "endswith_any s sufs = list_ex (endswith s) sufs"

text \<open>\<open>os.path.join(a, b)\<close>, \<open>os.path.basename(p)\<close> and \<open>os.path.splitext(p)[0]\<close> for a
  \<open>p\<close> without a directory, as \<open>posixpath\<close> computes them.\<close>

definition path_join :: "string \<Rightarrow> string \<Rightarrow> string" where
  "path_join a b =
     (if b \<noteq> [] \<and> hd b = CHR ''/'' then b
      else if a = [] \<or> last a = CHR ''/'' then a @ b
      else a @ ''/'' @ b)"

definition basename :: "string \<Rightarrow> string" where
  "basename p = rev (takeWhile (\<lambda>c. c \<noteq> CHR ''/'') (rev p))"

definition splitext_root :: "string \<Rightarrow> string" where
  "splitext_root p =
     (let stem = rev (drop 1 (dropWhile (\<lambda>c. c \<noteq> CHR ''.'') (rev p)))
      in if CHR ''.'' \<in> set p \<and> filter (\<lambda>c. c \<noteq> CHR ''.'') stem \<noteq> [] then stem else p)"

subsection \<open>The chunker\<close>

definition push :: "'a list \<Rightarrow> 'a list list \<Rightarrow> 'a list list" where
  "push p segs = (case segs of [] \<Rightarrow> [p] | seg # rest \<Rightarrow> (p @ seg) # rest)"

text \<open>\<open>text.split("\n\n")\<close>: the separator is searched from left to right, and the search
  goes on after each occurrence found.\<close>

fun split_blank :: "string \<Rightarrow> string list" where
  "split_blank [] = [[]]"
| "split_blank [c] = [[c]]"
| "split_blank (c # d # cs) =
     (if c = NL \<and> d = NL then [] # split_blank cs else push [c] (split_blank (d # cs)))"

text \<open>\<open>[c.strip() for c in text.split("\n\n") if c.strip()]\<close>, as both \<open>_ingest_text\<close> and
  \<open>_ingest_pdf\<close> write it.\<close>

definition chunk_paragraphs :: "string \<Rightarrow> string list" where
  "chunk_paragraphs t = map strip (filter (\<lambda>c. strip c \<noteq> []) (split_blank t))"

subsection \<open>Effects\<close>

text \<open>
  An ingestion calls the file system, the embedding models, the OCR engine, the PDF
  libraries and the vector store. Their answers are parameters of the model
  (\<open>ingest_env\<close>); an answer \<open>Inl msg\<close> is an exception raised by the library. The calls
  that write a file, embed or upsert are recorded, in order, in a list of effects, so
  that the model says what an ingestion has done when it returns or raises.
\<close>

type_synonym image = string

datatype effect =
    WriteFile string string
  | EmbedText "string list"
  | EmbedImage image
  | UpsertText "string list" "vec list" "metadata list" "string list"
  | UpsertImages "string list" "vec list" "metadata list"

type_synonym 'a io = "effect list \<times> (error + 'a)"

definition ret :: "'a \<Rightarrow> 'a io" where
  "ret a = ([], Inr a)"

definition throw :: "error \<Rightarrow> 'a io" where
  "throw e = ([], Inl e)"

definition lift :: "error + 'a \<Rightarrow> 'a io" where
  "lift r = ([], r)"

definition bind_io :: "'a io \<Rightarrow> ('a \<Rightarrow> 'b io) \<Rightarrow> 'b io" where
  "bind_io m f =
     (case m of
        (es, Inl e) \<Rightarrow> (es, Inl e)
      | (es, Inr a) \<Rightarrow> (case f a of (es', r) \<Rightarrow> (es @ es', r)))"

definition call :: "effect \<Rightarrow> string + 'a \<Rightarrow> 'a io" where
  "call ef r = ([ef], ext r)"

text \<open>\<open>for x in xs: ys.append(f(x))\<close>; the first exception ends the loop.\<close>

fun for_each :: "('a \<Rightarrow> 'b io) \<Rightarrow> 'a list \<Rightarrow> 'b list io" where
  "for_each f [] = ret []"
| "for_each f (x # xs) = bind_io (f x) (\<lambda>y. bind_io (for_each f xs) (\<lambda>ys. ret (y # ys)))"

record ingest_env =
  write_file :: "string \<Rightarrow> string \<Rightarrow> string + unit"
  read_text :: "string \<Rightarrow> string + string"
  open_image :: "string \<Rightarrow> string + image"
  embed_text :: "string list \<Rightarrow> string + vec list"
  embed_image :: "image \<Rightarrow> string + vec list"
  image_to_string :: "image \<Rightarrow> error + string"
  store_upsert_text :: "string list \<Rightarrow> vec list \<Rightarrow> metadata list \<Rightarrow> string list \<Rightarrow> string + unit"
  store_upsert_images :: "string list \<Rightarrow> vec list \<Rightarrow> metadata list \<Rightarrow> string + unit"
  pdf_page_texts :: "string \<Rightarrow> string + string option list"
  pdf_page_count :: "string \<Rightarrow> string + nat"
  render_page :: "string \<Rightarrow> nat \<Rightarrow> string \<Rightarrow> string + unit"

subsection \<open>\<open>ocr_image\<close> (\<open>app/utils/ocr_utils.py\<close>)\<close>

text \<open>The engine is \<open>pytesseract.image_to_string\<close>; whatever exception it raises is caught
  by one of the two handlers.\<close>

definition ocr_image :: "ingest_env \<Rightarrow> image \<Rightarrow> error + string" where
  "ocr_image env img =
     (case image_to_string env img of
        Inr txt \<Rightarrow> Inr (strip txt)
      | Inl TesseractNotFoundError \<Rightarrow> Inr []
      | Inl _ \<Rightarrow> Inr [])"

subsection \<open>\<open>extract_pdf_text_per_page\<close> and \<open>extract_pdf_images\<close> (\<open>app/utils/pdf_utils.py\<close>)\<close>

definition extract_pdf_text_per_page :: "ingest_env \<Rightarrow> string \<Rightarrow> (nat \<times> string) list io" where
  "extract_pdf_text_per_page env pdf_path =
     bind_io (lift (ext (pdf_page_texts env pdf_path))) (\<lambda>texts.
       ret (enumerate 1 (map (\<lambda>t. strip (case t of None \<Rightarrow> [] | Some s \<Rightarrow> s)) texts)))"

record image_record =
  rec_page :: nat
  rec_path :: string

definition render_one :: "ingest_env \<Rightarrow> string \<Rightarrow> string \<Rightarrow> nat \<Rightarrow> image_record io" where
  "render_one env pdf_path output_dir page_index =
     (let filename = ''page'' @ str_nat (page_index + 1) @ ''.png'';
          out_path = path_join output_dir filename
      in bind_io (lift (ext (render_page env pdf_path page_index out_path))) (\<lambda>_.
           ret \<lparr> rec_page = page_index + 1, rec_path = out_path \<rparr>))"

definition extract_pdf_images :: "ingest_env \<Rightarrow> string \<Rightarrow> string \<Rightarrow> image_record list io" where
  "extract_pdf_images env pdf_path output_dir =
     bind_io (lift (ext (pdf_page_count env pdf_path))) (\<lambda>n.
       for_each (render_one env pdf_path output_dir) [0..<n])"

subsection \<open>\<open>_ingest_text\<close>\<close>

definition text_meta :: "string \<Rightarrow> string \<Rightarrow> string \<Rightarrow> nat \<Rightarrow> metadata" where
  "text_meta doc_id path timestamp i =
     [''doc_id'' \<mapsto> PStr doc_id, ''file_type'' \<mapsto> PStr ''text'', ''source_path'' \<mapsto> PStr path,
      ''chunk_index'' \<mapsto> PInt (int i), ''uploaded_at'' \<mapsto> PStr timestamp]"

definition ingest_text :: "ingest_env \<Rightarrow> string \<Rightarrow> string \<Rightarrow> string \<Rightarrow> (string \<rightharpoonup> pyval) io" where
  "ingest_text env path doc_id timestamp =
     bind_io (lift (ext (read_text env path))) (\<lambda>raw.
       let txt = strip raw in
       if txt = [] then throw (HTTPException 400 ''Empty text file'')
       else
         let chunks = chunk_paragraphs txt in
         bind_io (call (EmbedText chunks) (embed_text env chunks)) (\<lambda>emb.
           let idents = map (\<lambda>i. ''txt::'' @ doc_id @ ''::'' @ str_int (int i)) [0..<length chunks];
               metas = map (text_meta doc_id path timestamp) [0..<length chunks]
           in bind_io (call (UpsertText idents emb metas chunks)
                            (store_upsert_text env idents emb metas chunks)) (\<lambda>_.
                ret [''status'' \<mapsto> PStr ''ok'', ''ingested_chunks'' \<mapsto> PInt (int (length chunks)),
                     ''doc_id'' \<mapsto> PStr doc_id])))"

subsection \<open>\<open>_ingest_image\<close>\<close>

text \<open>\<open>s or ""\<close>.\<close>

definition or_empty :: "string \<Rightarrow> string" where
  "or_empty s = (if s = [] then [] else s)"

definition image_meta :: "string \<Rightarrow> string \<Rightarrow> string \<Rightarrow> string \<Rightarrow> metadata" where
  "image_meta doc_id path timestamp ocr_txt =
     [''doc_id'' \<mapsto> PStr doc_id, ''file_type'' \<mapsto> PStr ''image'', ''source_path'' \<mapsto> PStr path,
      ''uploaded_at'' \<mapsto> PStr timestamp, ''ocr_text'' \<mapsto> PStr ocr_txt]"

definition ingest_image :: "ingest_env \<Rightarrow> string \<Rightarrow> string \<Rightarrow> string \<Rightarrow> (string \<rightharpoonup> pyval) io" where
  "ingest_image env path doc_id timestamp =
     bind_io (lift (ext (open_image env path))) (\<lambda>img.
     bind_io (call (EmbedImage img) (embed_image env img)) (\<lambda>image_emb.
     bind_io (lift (ocr_image env img)) (\<lambda>ocr.
       let ocr_txt = or_empty ocr;
           idents = [''img::'' @ doc_id];
           metas = [image_meta doc_id path timestamp ocr_txt]
       in bind_io (call (UpsertImages idents image_emb metas)
                        (store_upsert_images env idents image_emb metas)) (\<lambda>_.
            ret [''status'' \<mapsto> PStr ''ok'', ''ingested_images'' \<mapsto> PInt 1,
                 ''doc_id'' \<mapsto> PStr doc_id, ''ocr_chars'' \<mapsto> PInt (int (length ocr_txt))]))))"

subsection \<open>\<open>_ingest_pdf\<close>\<close>

definition pdf_text_meta :: "string \<Rightarrow> string \<Rightarrow> string \<Rightarrow> nat \<Rightarrow> nat \<Rightarrow> metadata" where
  "pdf_text_meta doc_id path timestamp page_num idx =
     [''doc_id'' \<mapsto> PStr doc_id, ''file_type'' \<mapsto> PStr ''pdf_text'', ''source_path'' \<mapsto> PStr path,
      ''uploaded_at'' \<mapsto> PStr timestamp, ''page'' \<mapsto> PInt (int page_num),
      ''chunk_index'' \<mapsto> PInt (int idx)]"

text \<open>The loop over the pages: the chunks of every page with text, each with its metadata.\<close>

definition pdf_text_units ::
    "string \<Rightarrow> string \<Rightarrow> string \<Rightarrow> (nat \<times> string) list \<Rightarrow> (string \<times> metadata) list" where
  "pdf_text_units doc_id path timestamp pages =
     concat (map (\<lambda>(page_num, page_text).
       if page_text = [] then []
       else map (\<lambda>(idx, chunk). (chunk, pdf_text_meta doc_id path timestamp page_num idx))
                (enumerate 0 (chunk_paragraphs page_text))) pages)"

definition pdf_text_id :: "string \<Rightarrow> metadata \<Rightarrow> error + string" where
  "pdf_text_id doc_id m =
     bind_err (dict_item m ''page'') (\<lambda>page.
     bind_err (dict_item m ''chunk_index'') (\<lambda>chunk_index.
       Inr (''pdftext::'' @ doc_id @ ''::p'' @ py_str page @ ''::c'' @ py_str chunk_index)))"

fun map_err :: "('a \<Rightarrow> error + 'b) \<Rightarrow> 'a list \<Rightarrow> error + 'b list" where
  "map_err f [] = Inr []"
| "map_err f (x # xs) =
     (case f x of Inl e \<Rightarrow> Inl e
      | Inr y \<Rightarrow> (case map_err f xs of Inl e \<Rightarrow> Inl e | Inr ys \<Rightarrow> Inr (y # ys)))"

text \<open>One rendered page: its id, its embedding (the first row of what the model returns)
  and its metadata.\<close>

definition pdf_image_unit ::
    "ingest_env \<Rightarrow> string \<Rightarrow> string \<Rightarrow> string \<Rightarrow> image_record \<Rightarrow> (string \<times> vec \<times> metadata) io" where
  "pdf_image_unit env doc_id path timestamp r =
     (let img_path = rec_path r in
      bind_io (lift (ext (open_image env img_path))) (\<lambda>img.
      bind_io (lift (ocr_image env img)) (\<lambda>ocr.
        let ocr_txt = or_empty ocr in
        bind_io (call (EmbedImage img) (embed_image env img)) (\<lambda>emb.
        bind_io (lift (index emb 0)) (\<lambda>emb0.
          ret (''pdfimg::'' @ doc_id @ ''::p'' @ str_int (int (rec_page r)) @ ''::'' @ basename img_path,
               emb0,
               [''doc_id'' \<mapsto> PStr doc_id, ''file_type'' \<mapsto> PStr ''pdf_image'',
                ''source_path'' \<mapsto> PStr path, ''uploaded_at'' \<mapsto> PStr timestamp,
                ''page'' \<mapsto> PInt (int (rec_page r)), ''image_path'' \<mapsto> PStr img_path,
                ''ocr_text'' \<mapsto> PStr ocr_txt]))))))"

definition ingest_pdf :: "ingest_env \<Rightarrow> string \<Rightarrow> string \<Rightarrow> string \<Rightarrow> (string \<rightharpoonup> pyval) io" where
  "ingest_pdf env path doc_id timestamp =
     bind_io (extract_pdf_text_per_page env path) (\<lambda>pages.
       let units = pdf_text_units doc_id path timestamp pages;
           text_chunks = map fst units;
           text_metas = map snd units;
           extract_dir = path_join ''data/extracted'' (splitext_root (basename path))
       in
       bind_io (extract_pdf_images env path extract_dir) (\<lambda>image_records.
       bind_io (for_each (pdf_image_unit env doc_id path timestamp) image_records) (\<lambda>image_units.
         let image_ids = map fst image_units;
             image_embeddings_list = map (\<lambda>u. fst (snd u)) image_units;
             image_metas = map (\<lambda>u. snd (snd u)) image_units
         in
         bind_io (if text_chunks \<noteq> [] then
                    bind_io (call (EmbedText text_chunks) (embed_text env text_chunks)) (\<lambda>text_emb.
                    bind_io (lift (map_err (pdf_text_id doc_id) text_metas)) (\<lambda>text_ids.
                      call (UpsertText text_ids text_emb text_metas text_chunks)
                           (store_upsert_text env text_ids text_emb text_metas text_chunks)))
                  else ret ()) (\<lambda>_.
         bind_io (if image_embeddings_list \<noteq> [] then
                    call (UpsertImages image_ids image_embeddings_list image_metas)
                         (store_upsert_images env image_ids image_embeddings_list image_metas)
                  else ret ()) (\<lambda>_.
           ret [''status'' \<mapsto> PStr ''ok'', ''doc_id'' \<mapsto> PStr doc_id,
                ''text_chunks'' \<mapsto> PInt (int (length text_chunks)),
                ''embedded_images'' \<mapsto> PInt (int (length image_embeddings_list))])))))"

subsection \<open>\<open>process_upload\<close>\<close>

definition SUPPORTED_TEXT :: "string set" where
  "SUPPORTED_TEXT = {''text/plain''}"

definition SUPPORTED_IMAGES :: "string set" where
  "SUPPORTED_IMAGES = {''image/png'', ''image/jpeg'', ''image/jpg''}"

definition SUPPORTED_PDF :: "string set" where
  "SUPPORTED_PDF = {''application/pdf''}"

record upload_file =
  content_type :: "string option"
  filename :: "string option"
  content :: string

datatype route = TextRoute | ImageRoute | PdfRoute

text \<open>The conditions of the \<open>if\<close>/\<open>elif\<close> chain, in its order; \<open>None\<close> is the \<open>else\<close> branch.\<close>

definition classify :: "string \<Rightarrow> string \<Rightarrow> route option" where
  "classify ctype fname =
     (if ctype \<in> SUPPORTED_TEXT \<or> endswith (lower fname) ''.txt'' then Some TextRoute
      else if ctype \<in> SUPPORTED_IMAGES \<or> endswith_any (lower fname) [''.png'', ''.jpg'', ''.jpeg'']
        then Some ImageRoute
      else if ctype \<in> SUPPORTED_PDF \<or> endswith (lower fname) ''.pdf'' then Some PdfRoute
      else None)"

text \<open>\<open>str(e)\<close> for the exceptions of the model.\<close>

fun exc_str :: "error \<Rightarrow> string" where
  "exc_str (HTTPException code detail) = detail"
| "exc_str IndexError = ''list index out of range''"
| "exc_str KeyError = ''key''"
| "exc_str TesseractNotFoundError = ''tesseract is not installed or it's not in your PATH''"
| "exc_str (OtherException msg) = msg"

text \<open>The handlers of \<open>process_upload\<close>: an \<open>HTTPException\<close> is raised again, any other
  exception becomes the status 500.\<close>

definition handle_upload :: "'a io \<Rightarrow> 'a io" where
  "handle_upload m =
     (case m of
        (es, Inl (HTTPException code detail)) \<Rightarrow> (es, Inl (HTTPException code detail))
      | (es, Inl e) \<Rightarrow> (es, Inl (HTTPException 500 (''Error processing file: '' @ exc_str e)))
      | (es, Inr a) \<Rightarrow> (es, Inr a))"

text \<open>\<open>file.content_type or ""\<close>, \<open>file.filename or f"upload_{uuid.uuid4()}"\<close> and the path
  the upload is stored at.\<close>

definition upload_content_type :: "upload_file \<Rightarrow> string" where
  "upload_content_type file = (case content_type file of None \<Rightarrow> [] | Some s \<Rightarrow> s)"

definition upload_filename :: "upload_file \<Rightarrow> string \<Rightarrow> string" where
  "upload_filename file name_uuid =
     (case filename file of None \<Rightarrow> ''upload_'' @ name_uuid
      | Some s \<Rightarrow> if s = [] then ''upload_'' @ name_uuid else s)"

definition stored_path :: "upload_file \<Rightarrow> string \<Rightarrow> string" where
  "stored_path file name_uuid = path_join ''data/uploads'' (upload_filename file name_uuid)"

text \<open>\<open>name_uuid\<close>, \<open>doc_id\<close> and \<open>timestamp\<close> are what \<open>uuid.uuid4()\<close> and
  \<open>datetime.utcnow()\<close> return during the call.\<close>

definition process_upload ::
    "ingest_env \<Rightarrow> upload_file \<Rightarrow> string \<Rightarrow> string \<Rightarrow> string \<Rightarrow> (string \<rightharpoonup> pyval) io" where
  "process_upload env file name_uuid doc_id timestamp =
     (let ctype = upload_content_type file;
          fname = upload_filename file name_uuid;
          path = stored_path file name_uuid
      in handle_upload
           (bind_io (call (WriteFile path (content file))
                          (write_file env path (content file))) (\<lambda>_.
              case classify ctype fname of
                Some TextRoute \<Rightarrow> ingest_text env path doc_id timestamp
              | Some ImageRoute \<Rightarrow> ingest_image env path doc_id timestamp
              | Some PdfRoute \<Rightarrow> ingest_pdf env path doc_id timestamp
              | None \<Rightarrow> throw (HTTPException 415 (''Unsupported file type: '' @ ctype)))))"

text \<open>The ids an ingestion has handed to the vector store.\<close>

fun upserted_ids :: "effect list \<Rightarrow> string list" where
  "upserted_ids [] = []"
| "upserted_ids (UpsertText idents _ _ _ # es) = idents @ upserted_ids es"
| "upserted_ids (UpsertImages idents _ _ # es) = idents @ upserted_ids es"
| "upserted_ids (_ # es) = upserted_ids es"

text \<open>The route each of the two tests of \<open>classify\<close> gives on its own.\<close>

definition content_type_route :: "string \<Rightarrow> route option" where
  "content_type_route ctype =
     (if ctype \<in> SUPPORTED_TEXT then Some TextRoute
      else if ctype \<in> SUPPORTED_IMAGES then Some ImageRoute
      else if ctype \<in> SUPPORTED_PDF then Some PdfRoute
      else None)"

definition extension_route :: "string \<Rightarrow> route option" where
  "extension_route fname =
     (if endswith (lower fname) ''.txt'' then Some TextRoute
      else if endswith_any (lower fname) [''.png'', ''.jpg'', ''.jpeg''] then Some ImageRoute
      else if endswith (lower fname) ''.pdf'' then Some PdfRoute
      else None)"

text \<open>The position of a route in the chain.\<close>

fun route_rank :: "route \<Rightarrow> nat" where
  "route_rank TextRoute = 0"
| "route_rank ImageRoute = 1"
| "route_rank PdfRoute = 2"

subsection \<open>A concrete environment\<close>

text \<open>Every library call succeeds, except the OCR engine, which is not installed.\<close>

definition demo_ingest_env :: ingest_env where
  "demo_ingest_env =
     \<lparr> write_file = (\<lambda>_ _. Inr ()),
       read_text = (\<lambda>_. Inr ''A\<newline>\<newline>B\<newline>\<newline>\<newline>C''),
       open_image = (\<lambda>_. Inr ''pixels''),
       embed_text = (\<lambda>cs. Inr (map (\<lambda>_. [1]) cs)),
       embed_image = (\<lambda>_. Inr [[1]]),
       image_to_string = (\<lambda>_. Inl TesseractNotFoundError),
       store_upsert_text = (\<lambda>_ _ _ _. Inr ()),
       store_upsert_images = (\<lambda>_ _ _. Inr ()),
       pdf_page_texts = (\<lambda>_. Inr [Some ''P\<newline>\<newline>Q'', None]),
       pdf_page_count = (\<lambda>_. Inr 2),
       render_page = (\<lambda>_ _ _. Inr ()) \<rparr>"

text \<open>The same environment, with a text file that holds white space only.\<close>

definition blank_env :: ingest_env where
  "blank_env = demo_ingest_env \<lparr> read_text := (\<lambda>_. Inr '' \<newline>\<newline> '') \<rparr>"

definition demo_upload :: "string \<Rightarrow> string \<Rightarrow> upload_file" where
  "demo_upload ctype fname = \<lparr> content_type = Some ctype, filename = Some fname, content = ''bytes'' \<rparr>"

section \<open>The specification's wording, for comparison\<close>

text \<open>
  Classification as the specification words it: the declared content-type is looked up
  in the supported sets \<open>text/plain\<close>; \<open>image/png\<close>, \<open>image/jpeg\<close>; \<open>application/pdf\<close> first, and
  the extension is used only when that lookup does not classify the file.
\<close>

definition spec_content_type_route :: "string \<Rightarrow> route option" where
  "spec_content_type_route ctype =
     (if ctype = ''text/plain'' then Some TextRoute
      else if ctype = ''image/png'' \<or> ctype = ''image/jpeg'' then Some ImageRoute
      else if ctype = ''application/pdf'' then Some PdfRoute
      else None)"

definition spec_classify :: "string \<Rightarrow> string \<Rightarrow> route option" where
  "spec_classify ctype fname =
     (case spec_content_type_route ctype of
        Some r \<Rightarrow> Some r
      | None \<Rightarrow> extension_route fname)"

text \<open>
  The id schema as the specification words it:
  \<open>{modality-prefix}::{doc_id}[::p{page}][::c{chunk_index}|::{basename}]\<close>, with
  \<open>::c{chunk_index}\<close> for a text chunk and \<open>::{basename}\<close> for an image.
\<close>

datatype unit_tail = ChunkIndex nat | Basename string

definition spec_unit_id :: "string \<Rightarrow> string \<Rightarrow> nat option \<Rightarrow> unit_tail \<Rightarrow> string" where
  "spec_unit_id prefix doc_id page tail =
     prefix @ ''::'' @ doc_id
     @ (case page of None \<Rightarrow> [] | Some p \<Rightarrow> ''::p'' @ str_nat p)
     @ (case tail of ChunkIndex c \<Rightarrow> ''::c'' @ str_nat c | Basename b \<Rightarrow> ''::'' @ b)"

text \<open>
  The chunker as the specification words it. The text is cut into its lines; a fully
  blank line is a line with no character at all; a paragraph is a maximal group of
  consecutive lines that are not fully blank, so that one or more fully blank lines form
  one boundary; the lines of a paragraph are put together again, the paragraph is
  trimmed, and it is dropped when nothing is left. The order of the text is kept.
\<close>

fun split_lines :: "string \<Rightarrow> string list" where
  "split_lines [] = [[]]"
| "split_lines (c # cs) = (if c = NL then [] # split_lines cs else push [c] (split_lines cs))"

fun paragraphs :: "string list \<Rightarrow> string list list" where
  "paragraphs [] = [[]]"
| "paragraphs (l # ls) = (if l = [] then [] # paragraphs ls else push [l] (paragraphs ls))"

definition spec_chunks :: "string \<Rightarrow> string list" where
  "spec_chunks t =
     filter (\<lambda>c. c \<noteq> []) (map (\<lambda>g. strip (join [NL] g)) (paragraphs (split_lines t)))"

text \<open>Two notions for the comparison: the chunks of a list of segments, and the text a
  group of lines that is still open has contributed to the segment the code is reading.\<close>

definition chunks_of :: "string list \<Rightarrow> string list" where
  "chunks_of segs = filter (\<lambda>c. c \<noteq> []) (map strip segs)"

definition pending :: "string list \<Rightarrow> string" where
  "pending pg = (if pg = [] then [] else join [NL] pg @ [NL])"

section \<open>Properties of retrieval\<close>

subsection \<open>Score normalization\<close>

lemma fold_min_Min: "fold min xs (x::real) = Min (set (x # xs))"
  by (simp only: Min.set_eq_fold)

lemma fold_max_Max: "fold max xs (x::real) = Max (set (x # xs))"
  by (simp only: Max.set_eq_fold)

lemma py_min_Min: "xs \<noteq> [] \<Longrightarrow> py_min xs = Min (set xs)"
  by (cases xs) (simp_all only: py_min.simps fold_min_Min, simp)

lemma py_max_Max: "xs \<noteq> [] \<Longrightarrow> py_max xs = Max (set xs)"
  by (cases xs) (simp_all only: py_max.simps fold_max_Max, simp)

lemma normalize_nonclose:
  assumes ne: "xs \<noteq> []" and nc: "\<not> isclose (py_max xs) (py_min xs)"
  shows "(\<forall>y \<in> set (normalize_scores xs). 0 \<le> y \<and> y \<le> 1)
       \<and> 1 \<in> set (normalize_scores xs) \<and> 0 \<in> set (normalize_scores xs)"
proof -
  let ?mn = "Min (set xs)" and ?mx = "Max (set xs)"
  have mn: "py_min xs = ?mn" and mx: "py_max xs = ?mx"
    using ne by (simp_all add: py_min_Min py_max_Max)
  have neq: "?mx \<noteq> ?mn" using nc by (auto simp: isclose_def mn mx)
  have le: "?mn \<le> ?mx" using ne by (simp add: Min_le_iff)
  with neq have lt: "?mn < ?mx" by simp
  have norm: "normalize_scores xs = map (\<lambda>s. (s - ?mn) / (?mx - ?mn)) xs"
    using ne nc by (simp add: normalize_scores_def Let_def mn mx)
  have range: "\<forall>y \<in> set (normalize_scores xs). 0 \<le> y \<and> y \<le> 1"
  proof
    fix y assume "y \<in> set (normalize_scores xs)"
    then obtain s where s: "s \<in> set xs" and y: "y = (s - ?mn) / (?mx - ?mn)"
      by (auto simp: norm)
    have "?mn \<le> s" "s \<le> ?mx" using s by simp_all
    then show "0 \<le> y \<and> y \<le> 1" using lt by (simp add: y)
  qed
  have "?mx \<in> set xs" using ne by (simp add: Max_in)
  then have "(?mx - ?mn) / (?mx - ?mn) \<in> set (normalize_scores xs)"
    unfolding norm set_map by (rule imageI)
  then have one: "1 \<in> set (normalize_scores xs)" using lt by simp
  have "?mn \<in> set xs" using ne by (simp add: Min_in)
  then have "(?mn - ?mn) / (?mx - ?mn) \<in> set (normalize_scores xs)"
    unfolding norm set_map by (rule imageI)
  then have zero: "0 \<in> set (normalize_scores xs)" by simp
  from range one zero show ?thesis by blast
qed

lemma normalize_close:
  assumes "isclose (py_max xs) (py_min xs)"
  shows "normalize_scores xs = replicate (length xs) 1"
  using assms by (simp add: normalize_scores_def Let_def map_replicate_const)

lemma all_equal_isclose:
  assumes "xs \<noteq> []" "\<forall>x \<in> set xs. \<forall>y \<in> set xs. x = y"
  shows "isclose (py_max xs) (py_min xs)"
proof -
  have "Max (set xs) \<in> set xs" "Min (set xs) \<in> set xs"
    using assms(1) by (simp_all add: Max_in Min_in)
  with assms(2) have "Max (set xs) = Min (set xs)" by blast
  then show ?thesis using assms(1) by (simp add: isclose_def py_min_Min py_max_Max)
qed

lemma isclose_max_min:
  assumes "mn \<le> mx"
  shows "isclose mx mn \<longleftrightarrow> mx - mn \<le> rel_tol * max \<bar>mx\<bar> \<bar>mn\<bar>"
  using assms by (auto simp: isclose_def rel_tol_def abs_tol_def abs_mult max_def)

text \<open>
  Claim C2, as the code has it. The empty list is normalized to the empty list. For a
  non-empty list every output lies in \<open>[0, 1]\<close> and one output is \<open>1\<close>. An output \<open>0\<close>
  exists when the largest and the smallest input are not close in the sense of
  \<open>math.isclose\<close>, that is when they differ by more than \<open>10\<^sup>-\<^sup>9\<close> times the larger of their
  absolute values. When they are close, and so when all inputs are equal, every output is
  \<open>1\<close>. Being not all equal is not enough for an output \<open>0\<close>.
\<close>

theorem normalize_scores_range:
  "normalize_scores [] = []
   \<and> length (normalize_scores xs) = length xs
   \<and> (xs \<noteq> [] \<longrightarrow>
        (\<forall>y \<in> set (normalize_scores xs). 0 \<le> y \<and> y \<le> 1) \<and> 1 \<in> set (normalize_scores xs))
   \<and> (xs \<noteq> [] \<and> \<not> isclose (py_max xs) (py_min xs) \<longrightarrow> 0 \<in> set (normalize_scores xs))
   \<and> (isclose (py_max xs) (py_min xs) \<longrightarrow> normalize_scores xs = replicate (length xs) 1)
   \<and> ((\<forall>x \<in> set xs. \<forall>y \<in> set xs. x = y) \<longrightarrow> normalize_scores xs = replicate (length xs) 1)
   \<and> (xs \<noteq> [] \<longrightarrow>
        (isclose (py_max xs) (py_min xs) \<longleftrightarrow>
           Max (set xs) - Min (set xs) \<le> rel_tol * max \<bar>Max (set xs)\<bar> \<bar>Min (set xs)\<bar>))"
proof -
  have c1: "normalize_scores [] = []"
    by (simp add: normalize_scores_def)
  have c2: "length (normalize_scores xs) = length xs"
    by (simp add: normalize_scores_def Let_def)
  have c3: "xs \<noteq> [] \<longrightarrow>
        (\<forall>y \<in> set (normalize_scores xs). 0 \<le> y \<and> y \<le> 1) \<and> 1 \<in> set (normalize_scores xs)"
  proof
    assume ne: "xs \<noteq> []"
    show "(\<forall>y \<in> set (normalize_scores xs). 0 \<le> y \<and> y \<le> 1) \<and> 1 \<in> set (normalize_scores xs)"
    proof (cases "isclose (py_max xs) (py_min xs)")
      case True
      then show ?thesis using ne by (simp add: normalize_close)
    next
      case False
      then show ?thesis using normalize_nonclose[OF ne] by blast
    qed
  qed
  have c4: "xs \<noteq> [] \<and> \<not> isclose (py_max xs) (py_min xs) \<longrightarrow> 0 \<in> set (normalize_scores xs)"
    using normalize_nonclose[of xs] by blast
  have c5: "isclose (py_max xs) (py_min xs) \<longrightarrow> normalize_scores xs = replicate (length xs) 1"
    using normalize_close[of xs] by blast
  have c6: "(\<forall>x \<in> set xs. \<forall>y \<in> set xs. x = y) \<longrightarrow> normalize_scores xs = replicate (length xs) 1"
  proof
    assume eq: "\<forall>x \<in> set xs. \<forall>y \<in> set xs. x = y"
    show "normalize_scores xs = replicate (length xs) 1"
    proof (cases "xs = []")
      case True
      then show ?thesis by (simp add: normalize_scores_def)
    next
      case False
      from all_equal_isclose[OF False eq] show ?thesis by (rule normalize_close)
    qed
  qed
  have c7: "xs \<noteq> [] \<longrightarrow>
        (isclose (py_max xs) (py_min xs) \<longleftrightarrow>
           Max (set xs) - Min (set xs) \<le> rel_tol * max \<bar>Max (set xs)\<bar> \<bar>Min (set xs)\<bar>)"
  proof
    assume ne: "xs \<noteq> []"
    have le: "Min (set xs) \<le> Max (set xs)" using ne by (simp add: Min_le_iff)
    show "isclose (py_max xs) (py_min xs) \<longleftrightarrow>
           Max (set xs) - Min (set xs) \<le> rel_tol * max \<bar>Max (set xs)\<bar> \<bar>Min (set xs)\<bar>"
      unfolding py_min_Min[OF ne] py_max_Max[OF ne] by (rule isclose_max_min[OF le])
  qed
  show ?thesis
    by (intro conjI) (rule c1, rule c2, rule c3, rule c4, rule c5, rule c6, rule c7)
qed

theorem normalize_scores_range_witness:
  "[1/10, 1/2, 9/10] \<noteq> ([] :: real list)
   \<and> \<not> isclose (py_max [1/10, 1/2, 9/10]) (py_min [1/10, 1/2, 9/10])
   \<and> 0 \<in> set (normalize_scores [1/10, 1/2, 9/10])
   \<and> 1 \<in> set (normalize_scores [1/10, 1/2, 9/10])
   \<and> isclose (py_max [1/2, 1/2, 1/2]) (py_min [1/2, 1/2, 1/2])
   \<and> normalize_scores [1/2, 1/2, 1/2] = [1, 1, 1]"
proof -
  have a: "[1/10, 1/2, 9/10] \<noteq> ([] :: real list)" by simp
  have b: "\<not> isclose (py_max [1/10, 1/2, 9/10]) (py_min [1/10, 1/2, 9/10])"
    by (simp add: isclose_def rel_tol_def abs_tol_def)
  have c: "isclose (py_max [1/2, 1/2, 1/2]) (py_min [1/2, 1/2, 1/2])"
    by (simp add: isclose_def)
  show ?thesis
    using a b c normalize_scores_range[of "[1/10, 1/2, 9/10]"]
      normalize_scores_range[of "[1/2, 1/2, 1/2]"]
    by (simp add: numeral_3_eq_3)
qed

text \<open>The inputs \<open>0.5\<close> and \<open>0.5000000001\<close> are not equal, yet both are mapped to \<open>1\<close>.\<close>

theorem normalize_scores_counterexample:
  "(1/2 :: real) \<noteq> 1/2 + 1/10^10
   \<and> normalize_scores [1/2, 1/2 + 1/10^10] = [1, 1]
   \<and> 0 \<notin> set (normalize_scores [1/2, 1/2 + 1/10^10])"
  by (simp add: normalize_scores_def isclose_def rel_tol_def abs_tol_def)

subsection \<open>Source attribution\<close>

lemma join_append_one: "ps \<noteq> [] \<Longrightarrow> join sep (ps @ [p]) = join sep ps @ sep @ p"
  by (induction sep ps rule: join.induct) simp_all

text \<open>
  Claim C8. The attribution string is \<open>Source: <path> | Type: <file_type>\<close>, followed by
  \<open> | Page: <n>\<close>, \<open> | Chunk: <idx>\<close> and \<open> | Uploaded: <timestamp>\<close>, in this order,
  each present exactly when its key is in the metadata (a missing path or file type is
  written \<open>unknown\<close>). The metadata of the example gives
  \<open>Source: data/uploads/document.pdf | Type: pdf_text | Page: 5 | Chunk: 2\<close>.
\<close>

theorem source_attribution_format:
  "format_source_attribution md =
     ''Source: '' @ py_str (dict_get md ''source_path'' (PStr ''unknown''))
     @ '' | Type: '' @ py_str (dict_get md ''file_type'' (PStr ''unknown''))
     @ (case md ''page'' of None \<Rightarrow> [] | Some v \<Rightarrow> '' | Page: '' @ py_str v)
     @ (case md ''chunk_index'' of None \<Rightarrow> [] | Some v \<Rightarrow> '' | Chunk: '' @ py_str v)
     @ (case md ''uploaded_at'' of None \<Rightarrow> [] | Some v \<Rightarrow> '' | Uploaded: '' @ py_str v)
   \<and> format_source_attribution
       [''file_type'' \<mapsto> PStr ''pdf_text'', ''source_path'' \<mapsto> PStr ''data/uploads/document.pdf'',
        ''page'' \<mapsto> PInt 5, ''chunk_index'' \<mapsto> PInt 2]
     = ''Source: data/uploads/document.pdf | Type: pdf_text | Page: 5 | Chunk: 2''"
proof
  show "format_source_attribution md =
     ''Source: '' @ py_str (dict_get md ''source_path'' (PStr ''unknown''))
     @ '' | Type: '' @ py_str (dict_get md ''file_type'' (PStr ''unknown''))
     @ (case md ''page'' of None \<Rightarrow> [] | Some v \<Rightarrow> '' | Page: '' @ py_str v)
     @ (case md ''chunk_index'' of None \<Rightarrow> [] | Some v \<Rightarrow> '' | Chunk: '' @ py_str v)
     @ (case md ''uploaded_at'' of None \<Rightarrow> [] | Some v \<Rightarrow> '' | Uploaded: '' @ py_str v)"
    by (simp add: format_source_attribution_def Let_def join_append_one split: option.split)
  show "format_source_attribution
       [''file_type'' \<mapsto> PStr ''pdf_text'', ''source_path'' \<mapsto> PStr ''data/uploads/document.pdf'',
        ''page'' \<mapsto> PInt 5, ''chunk_index'' \<mapsto> PInt 2]
     = ''Source: data/uploads/document.pdf | Type: pdf_text | Page: 5 | Chunk: 2''"
    by (simp add: format_source_attribution_def Let_def dict_get_def str_int_def str_nat.simps
        digit_char_def)
qed

subsection \<open>The stable sort\<close>

lemma mset_insert_desc: "mset (insert_desc key x ys) = add_mset x (mset ys)"
  by (induction ys) simp_all

lemma mset_sort_desc: "mset (sort_desc key xs) = mset xs"
  unfolding sort_desc_def by (induction xs) (simp_all add: mset_insert_desc)

lemma set_insert_desc: "set (insert_desc key x ys) = insert x (set ys)"
  by (induction ys) auto

lemma sorted_insert_desc:
  "sorted_wrt (\<lambda>a b. key b \<le> key a) ys \<Longrightarrow>
   sorted_wrt (\<lambda>a b. key b \<le> key a) (insert_desc key x ys)"
  by (induction ys) (auto simp: set_insert_desc)

lemma sorted_sort_desc: "sorted_wrt (\<lambda>a b. key b \<le> key a) (sort_desc key xs)"
  unfolding sort_desc_def by (induction xs) (simp_all add: sorted_insert_desc)

lemma filter_insert_desc:
  "filter (\<lambda>y. key y = v) (insert_desc key x ys) =
     (if key x = v then x # filter (\<lambda>y. key y = v) ys else filter (\<lambda>y. key y = v) ys)"
  by (induction ys) auto

lemma sort_desc_stable:
  "filter (\<lambda>y. key y = v) (sort_desc key xs) = filter (\<lambda>y. key y = v) xs"
  unfolding sort_desc_def by (induction xs) (simp_all add: filter_insert_desc)

lemma length_sort_desc: "length (sort_desc key xs) = length xs"
  using mset_sort_desc[of key xs] by (metis size_mset)

subsection \<open>The merged list\<close>

lemma length_enum_collect: "enum_collect f i xs = Inr ys \<Longrightarrow> length ys = length xs"
  by (induction xs arbitrary: i ys) (auto split: sum.splits)

lemma length_text_candidates:
  "text_candidates r = Inr ts \<Longrightarrow> first_row_default (ids r) = Inr row \<Longrightarrow> length ts = length row"
  by (auto simp: text_candidates_def bind_err_def dest: length_enum_collect)

lemma length_image_candidates:
  "image_candidates r = Inr ts \<Longrightarrow> first_row_default (ids r) = Inr row \<Longrightarrow> length ts = length row"
  by (auto simp: image_candidates_def bind_err_def dest: length_enum_collect)

lemma enum_collect_all:
  "enum_collect f i xs = Inr ys \<Longrightarrow> (\<And>j x y. f j x = Inr y \<Longrightarrow> P y) \<Longrightarrow> \<forall>y \<in> set ys. P y"
  by (induction xs arbitrary: i ys) (auto split: sum.splits)

lemma text_candidates_modality:
  "text_candidates r = Inr ts \<Longrightarrow> \<forall>x \<in> set ts. modality x = ''text''"
proof -
  assume a: "text_candidates r = Inr ts"
  then obtain row where "enum_collect (text_entry r (scores_of r)) 0 row = Inr ts"
    by (auto simp: text_candidates_def bind_err_def split: sum.splits)
  then show ?thesis
    by (rule enum_collect_all) (auto simp: text_entry_def bind_err_def split: sum.splits)
qed

lemma image_candidates_modality:
  "image_candidates r = Inr ts \<Longrightarrow> \<forall>x \<in> set ts. modality x = ''image''"
proof -
  assume a: "image_candidates r = Inr ts"
  then obtain row where "enum_collect (image_entry r (scores_of r)) 0 row = Inr ts"
    by (auto simp: image_candidates_def bind_err_def split: sum.splits)
  then show ?thesis
    by (rule enum_collect_all) (auto simp: image_entry_def bind_err_def split: sum.splits)
qed

lemma retrieve_rows:
  "retrieve env q k = Inr (tr, ir) \<Longrightarrow>
     \<exists>rt ri. first_row_default (ids tr) = Inr rt \<and> first_row_default (ids ir) = Inr ri"
  by (auto simp: retrieve_def bind_err_def split: sum.splits)

lemma multimodal_query_returns:
  assumes "retrieve env q k = Inr (tr, ir)"
      and "text_candidates tr = Inr ts" and "image_candidates ir = Inr is"
  shows "multimodal_query env q k =
           Inr \<lparr> query = q, results = merge_top_k (ts @ is) k,
                 total_results = length (merge_top_k (ts @ is) k) \<rparr>"
  using assms by (simp add: multimodal_query_def bind_err_def Let_def)

lemmas query_eval =
  retrieve_def text_candidates_def image_candidates_def first_row_default_def
  index_def bind_err_def ext_def text_entry_def image_entry_def cell_or_def scores_of_def
  normalize_scores_def isclose_def rel_tol_def abs_tol_def score_at_def dict_get_def
  demo_text_results_def demo_image_results_def demo_query_env_def demo_candidate_def

lemma demo_retrieve:
  "retrieve demo_query_env ''q'' 3 = Inr (demo_text_results, demo_image_results)"
  by (simp add: query_eval)

lemma demo_text_candidates:
  "text_candidates demo_text_results =
     Inr [(demo_candidate ''t1'' ''text'' 1) \<lparr> document := Some ''A'' \<rparr>,
          (demo_candidate ''t2'' ''text'' 0) \<lparr> document := Some ''B'' \<rparr>]"
  by (simp add: query_eval)

lemma demo_image_candidates:
  "image_candidates demo_image_results =
     Inr [demo_candidate ''i1'' ''image'' 1, demo_candidate ''i2'' ''image'' 0]"
  by (simp add: query_eval)

text \<open>
  Claim C1, for a result count \<open>k \<ge> 0\<close> (the interface takes a positive \<open>top_k\<close>). When
  the two searches return and \<open>ts\<close> and \<open>is\<close> are the text and the image candidates built
  from them (tagged \<open>text\<close> and \<open>image\<close>), the query returns the first \<open>k\<close> elements of the list \<open>ts @ is\<close> sorted by the
  stable sort: the sorted list is a permutation of \<open>ts @ is\<close>, its scores never increase,
  and for every score the elements with that score stand in the order they have in
  \<open>ts @ is\<close>, the text ones before the image ones. Text candidates with the scores
  0.9 and 0.4 and image candidates with the scores 0.95 and 0.5, merged with
  \<open>top_k = 3\<close>, give the image at 0.95, the text at 0.9 and the image at 0.5.
\<close>

theorem merge_order:
  assumes "retrieve env q k = Inr (tr, ir)"
      and "text_candidates tr = Inr ts" and "image_candidates ir = Inr is"
      and "0 \<le> k"
  shows "(\<exists>r. multimodal_query env q k = Inr r
           \<and> results r = take (nat k) (sort_desc score (ts @ is))
           \<and> mset (sort_desc score (ts @ is)) = mset ts + mset is
           \<and> sorted_wrt (\<lambda>a b. score b \<le> score a) (sort_desc score (ts @ is))
           \<and> (\<forall>v. filter (\<lambda>x. score x = v) (sort_desc score (ts @ is))
                    = filter (\<lambda>x. score x = v) ts @ filter (\<lambda>x. score x = v) is))
       \<and> (\<forall>x \<in> set ts. modality x = ''text'') \<and> (\<forall>x \<in> set is. modality x = ''image'')
       \<and> (\<forall>t1 t2 i1 i2.
            score t1 = 9/10 \<and> score t2 = 4/10 \<and> score i1 = 95/100 \<and> score i2 = 5/10
            \<longrightarrow> merge_top_k ([t1, t2] @ [i1, i2]) 3 = [i1, t1, i2])"
proof (intro conjI)
  show "\<forall>x \<in> set ts. modality x = ''text''"
    using assms(2) by (rule text_candidates_modality)
  show "\<forall>x \<in> set is. modality x = ''image''"
    using assms(3) by (rule image_candidates_modality)
  show "\<exists>r. multimodal_query env q k = Inr r
           \<and> results r = take (nat k) (sort_desc score (ts @ is))
           \<and> mset (sort_desc score (ts @ is)) = mset ts + mset is
           \<and> sorted_wrt (\<lambda>a b. score b \<le> score a) (sort_desc score (ts @ is))
           \<and> (\<forall>v. filter (\<lambda>x. score x = v) (sort_desc score (ts @ is))
                    = filter (\<lambda>x. score x = v) ts @ filter (\<lambda>x. score x = v) is)"
    using multimodal_query_returns[OF assms(1-3)] assms(4)
    by (simp add: merge_top_k_def slice_to_def mset_sort_desc sorted_sort_desc sort_desc_stable)
  show "\<forall>t1 t2 i1 i2.
            score t1 = 9/10 \<and> score t2 = 4/10 \<and> score i1 = 95/100 \<and> score i2 = 5/10
            \<longrightarrow> merge_top_k ([t1, t2] @ [i1, i2]) 3 = [i1, t1, i2]"
    by (simp add: merge_top_k_def slice_to_def sort_desc_def)
qed

theorem merge_order_witness:
  "retrieve demo_query_env ''q'' 3 = Inr (demo_text_results, demo_image_results)
   \<and> (0::int) \<le> 3
   \<and> (\<exists>r. multimodal_query demo_query_env ''q'' 3 = Inr r
          \<and> map id_key (results r) = [''t1'', ''i1'', ''t2'']
          \<and> map score (results r) = [1, 1, 0])
   \<and> merge_top_k ([demo_candidate ''t1'' ''text'' (9/10), demo_candidate ''t2'' ''text'' (4/10)]
                   @ [demo_candidate ''i1'' ''image'' (95/100), demo_candidate ''i2'' ''image'' (5/10)]) 3
       = [demo_candidate ''i1'' ''image'' (95/100), demo_candidate ''t1'' ''text'' (9/10),
          demo_candidate ''i2'' ''image'' (5/10)]"
proof -
  have k: "(0::int) \<le> 3" by simp
  note m = merge_order[OF demo_retrieve demo_text_candidates demo_image_candidates k]
  have ex: "score (demo_candidate ''t1'' ''text'' (9/10)) = 9/10
      \<and> score (demo_candidate ''t2'' ''text'' (4/10)) = 4/10
      \<and> score (demo_candidate ''i1'' ''image'' (95/100)) = 95/100
      \<and> score (demo_candidate ''i2'' ''image'' (5/10)) = 5/10"
    by (simp add: demo_candidate_def)
  from m ex have last: "merge_top_k ([demo_candidate ''t1'' ''text'' (9/10), demo_candidate ''t2'' ''text'' (4/10)]
                   @ [demo_candidate ''i1'' ''image'' (95/100), demo_candidate ''i2'' ''image'' (5/10)]) 3
       = [demo_candidate ''i1'' ''image'' (95/100), demo_candidate ''t1'' ''text'' (9/10),
          demo_candidate ''i2'' ''image'' (5/10)]"
    by blast
  from m obtain r where r: "multimodal_query demo_query_env ''q'' 3 = Inr r"
    "results r = take (nat 3) (sort_desc score
        ([(demo_candidate ''t1'' ''text'' 1) \<lparr> document := Some ''A'' \<rparr>,
          (demo_candidate ''t2'' ''text'' 0) \<lparr> document := Some ''B'' \<rparr>]
         @ [demo_candidate ''i1'' ''image'' 1, demo_candidate ''i2'' ''image'' 0]))"
    by blast
  have "map id_key (results r) = [''t1'', ''i1'', ''t2''] \<and> map score (results r) = [1, 1, 0]"
    unfolding r(2) by (simp add: sort_desc_def demo_candidate_def numeral_3_eq_3)
  with r(1) have ex_r: "\<exists>r. multimodal_query demo_query_env ''q'' 3 = Inr r
          \<and> map id_key (results r) = [''t1'', ''i1'', ''t2'']
          \<and> map score (results r) = [1, 1, 0]"
    by (intro exI[of _ r]) simp
  show ?thesis
    by (intro conjI) (rule demo_retrieve, rule k, rule ex_r, rule last)
qed

text \<open>
  Claim C10, for \<open>top_k = k \<ge> 0\<close>. The number of results is the smaller of \<open>k\<close> and the
  number of ids the text search returned plus the number of ids the image search
  returned, and \<open>total_results\<close> is the length of the truncated list.
\<close>

theorem result_count:
  assumes "retrieve env q k = Inr (tr, ir)"
      and "text_candidates tr = Inr ts" and "image_candidates ir = Inr is"
      and "0 \<le> k"
  shows "\<exists>r rt ri. multimodal_query env q k = Inr r
           \<and> first_row_default (ids tr) = Inr rt \<and> first_row_default (ids ir) = Inr ri
           \<and> length ts = length rt \<and> length is = length ri
           \<and> length (results r) = min (nat k) (length rt + length ri)
           \<and> total_results r = length (results r)"
proof -
  obtain rt ri where rows:
    "first_row_default (ids tr) = Inr rt" "first_row_default (ids ir) = Inr ri"
    using retrieve_rows[OF assms(1)] by blast
  have lt: "length ts = length rt" using length_text_candidates[OF assms(2) rows(1)] .
  have li: "length is = length ri" using length_image_candidates[OF assms(3) rows(2)] .
  show ?thesis
    using multimodal_query_returns[OF assms(1-3)] assms(4) rows lt li
    by (simp add: merge_top_k_def slice_to_def length_sort_desc)
qed

theorem result_count_witness:
  "retrieve demo_query_env ''q'' 3 = Inr (demo_text_results, demo_image_results)
   \<and> (0::int) \<le> 3
   \<and> first_row_default (ids demo_text_results) = Inr [''t1'', ''t2'']
   \<and> first_row_default (ids demo_image_results) = Inr [''i1'', ''i2'']
   \<and> (\<exists>r. multimodal_query demo_query_env ''q'' 3 = Inr r
          \<and> length (results r) = 3 \<and> total_results r = 3)"
proof -
  have k: "(0::int) \<le> 3" by simp
  have rt: "first_row_default (ids demo_text_results) = Inr [''t1'', ''t2'']"
    by (simp add: first_row_default_def index_def demo_text_results_def)
  have ri: "first_row_default (ids demo_image_results) = Inr [''i1'', ''i2'']"
    by (simp add: first_row_default_def index_def demo_image_results_def)
  from result_count[OF demo_retrieve demo_text_candidates demo_image_candidates k]
  obtain r where r: "multimodal_query demo_query_env ''q'' 3 = Inr r"
    "length (results r) = 3" "total_results r = 3"
    using rt ri by auto
  then have ex_r: "\<exists>r. multimodal_query demo_query_env ''q'' 3 = Inr r
          \<and> length (results r) = 3 \<and> total_results r = 3"
    by (intro exI[of _ r]) simp
  show ?thesis
    by (intro conjI) (rule demo_retrieve, rule k, rule rt, rule ri, rule ex_r)
qed

section \<open>Properties of ingestion\<close>

subsection \<open>The effect monad, OCR and image ingestion\<close>

lemma bind_io_Inl [simp]: "bind_io (es, Inl e) f = (es, Inl e)"
  by (simp add: bind_io_def)

lemma bind_io_Inr [simp]: "bind_io (es, Inr a) f = (es @ fst (f a), snd (f a))"
  by (simp add: bind_io_def split: prod.split)

lemma ocr_image_total: "\<exists>s. ocr_image env img = Inr s"
  by (simp add: ocr_image_def split: sum.split error.split)

lemma ocr_image_failure: "image_to_string env img = Inl e \<Longrightarrow> ocr_image env img = Inr []"
  by (simp add: ocr_image_def split: error.split)

lemma ingest_image_run:
  assumes "open_image env path = Inr img" "embed_image env img = Inr emb" "ocr_image env img = Inr ocr"
  shows "fst (ingest_image env path d t) =
           [EmbedImage img, UpsertImages [''img::'' @ d] emb [image_meta d path t ocr]]"
    and "store_upsert_images env [''img::'' @ d] emb [image_meta d path t ocr] = Inr u \<Longrightarrow>
         snd (ingest_image env path d t) =
           Inr [''status'' \<mapsto> PStr ''ok'', ''ingested_images'' \<mapsto> PInt 1,
                ''doc_id'' \<mapsto> PStr d, ''ocr_chars'' \<mapsto> PInt (int (length ocr))]"
  using assms
  by (simp_all add: ingest_image_def lift_def ext_def call_def ret_def or_empty_def Let_def
      split: sum.split)

text \<open>
  Claim C7. \<open>ocr_image\<close> returns a string whatever the engine does, and the empty string
  when the engine raises. An image ingestion whose engine raises, once the image is
  opened and embedded, hands the unit \<open>img::<doc_id>\<close> with an empty \<open>ocr_text\<close> to the store,
  and returns its record with \<open>ocr_chars = 0\<close> when the store accepts it.
\<close>

theorem ocr_never_raises:
  "(\<exists>s. ocr_image env img = Inr s)
   \<and> (\<forall>e. image_to_string env img = Inl e \<longrightarrow> ocr_image env img = Inr [])
   \<and> (\<forall>e emb. open_image env path = Inr img \<and> embed_image env img = Inr emb
          \<and> image_to_string env img = Inl e \<longrightarrow>
        fst (ingest_image env path doc_id timestamp) =
          [EmbedImage img, UpsertImages [''img::'' @ doc_id] emb [image_meta doc_id path timestamp []]]
        \<and> (store_upsert_images env [''img::'' @ doc_id] emb [image_meta doc_id path timestamp []] = Inr ()
             \<longrightarrow> snd (ingest_image env path doc_id timestamp) =
                   Inr [''status'' \<mapsto> PStr ''ok'', ''ingested_images'' \<mapsto> PInt 1,
                        ''doc_id'' \<mapsto> PStr doc_id, ''ocr_chars'' \<mapsto> PInt 0]))"
proof (intro conjI allI impI)
  show "\<exists>s. ocr_image env img = Inr s" by (rule ocr_image_total)
next
  fix e assume "image_to_string env img = Inl e"
  then show "ocr_image env img = Inr []" by (rule ocr_image_failure)
next
  fix e emb
  assume a: "open_image env path = Inr img \<and> embed_image env img = Inr emb
          \<and> image_to_string env img = Inl e"
  then have o: "ocr_image env img = Inr []" by (simp add: ocr_image_failure)
  from a o show "fst (ingest_image env path doc_id timestamp) =
          [EmbedImage img, UpsertImages [''img::'' @ doc_id] emb [image_meta doc_id path timestamp []]]"
    by (simp add: ingest_image_run(1))
  assume "store_upsert_images env [''img::'' @ doc_id] emb [image_meta doc_id path timestamp []] = Inr ()"
  with a o show "snd (ingest_image env path doc_id timestamp) =
                   Inr [''status'' \<mapsto> PStr ''ok'', ''ingested_images'' \<mapsto> PInt 1,
                        ''doc_id'' \<mapsto> PStr doc_id, ''ocr_chars'' \<mapsto> PInt 0]"
    using ingest_image_run(2)[of env path img emb "[]" doc_id timestamp "()"] by simp
qed

lemma handle_upload_Inr: "handle_upload m = (es, Inr a) \<Longrightarrow> m = (es, Inr a)"
  by (auto simp: handle_upload_def split: prod.splits sum.splits error.splits)

lemma ingest_image_result:
  assumes "ingest_image env path d t = (es, Inr res)"
  shows "\<exists>img ocr. open_image env path = Inr img \<and> ocr_image env img = Inr ocr
           \<and> res = [''status'' \<mapsto> PStr ''ok'', ''ingested_images'' \<mapsto> PInt 1,
                ''doc_id'' \<mapsto> PStr d, ''ocr_chars'' \<mapsto> PInt (int (length ocr))]"
  using assms
  by (auto simp: ingest_image_def lift_def ext_def call_def ret_def or_empty_def Let_def bind_io_def
      split: sum.splits prod.splits)

lemma process_upload_image:
  assumes "classify (upload_content_type file) (upload_filename file nu) = Some ImageRoute"
  shows "process_upload env file nu d t =
           handle_upload (bind_io (call (WriteFile (stored_path file nu) (content file))
                                    (write_file env (stored_path file nu) (content file)))
                                  (\<lambda>_. ingest_image env (stored_path file nu) d t))"
  using assms by (simp add: process_upload_def Let_def)

lemma bind_io_result:
  "bind_io m f = (es, Inr b) \<Longrightarrow> \<exists>es1 a es2. m = (es1, Inr a) \<and> f a = (es2, Inr b) \<and> es = es1 @ es2"
  by (auto simp: bind_io_def split: prod.splits sum.splits)

text \<open>
  Claim C9, as the code has it. A successful image upload returns exactly the keys
  \<open>status\<close>, \<open>doc_id\<close>, \<open>ingested_images\<close> and \<open>ocr_chars\<close>: the document id, the count 1 of
  ingested images under the key \<open>ingested_images\<close>, and the length of the OCR text. There
  is no key \<open>embedded_images\<close>.
\<close>

theorem image_upload_result:
  assumes "classify (upload_content_type file) (upload_filename file nu) = Some ImageRoute"
      and "process_upload env file nu d t = (es, Inr res)"
  shows "\<exists>img ocr. open_image env (stored_path file nu) = Inr img \<and> ocr_image env img = Inr ocr
           \<and> res ''status'' = Some (PStr ''ok'')
           \<and> res ''doc_id'' = Some (PStr d)
           \<and> res ''ingested_images'' = Some (PInt 1)
           \<and> res ''ocr_chars'' = Some (PInt (int (length ocr)))
           \<and> res ''embedded_images'' = None
           \<and> dom res = {''ocr_chars'', ''doc_id'', ''ingested_images'', ''status''}"
proof -
  from assms(2) have "bind_io (call (WriteFile (stored_path file nu) (content file))
                                    (write_file env (stored_path file nu) (content file)))
                                  (\<lambda>_. ingest_image env (stored_path file nu) d t) = (es, Inr res)"
    unfolding process_upload_image[OF assms(1)] by (rule handle_upload_Inr)
  from bind_io_result[OF this]
  obtain es1 a es2 where "ingest_image env (stored_path file nu) d t = (es2, Inr res)"
    by auto
  from ingest_image_result[OF this] obtain img ocr where
    io: "open_image env (stored_path file nu) = Inr img" "ocr_image env img = Inr ocr"
    and res: "res = [''status'' \<mapsto> PStr ''ok'', ''ingested_images'' \<mapsto> PInt 1,
                ''doc_id'' \<mapsto> PStr d, ''ocr_chars'' \<mapsto> PInt (int (length ocr))]"
    by blast
  have fields: "res ''status'' = Some (PStr ''ok'')
           \<and> res ''doc_id'' = Some (PStr d)
           \<and> res ''ingested_images'' = Some (PInt 1)
           \<and> res ''ocr_chars'' = Some (PInt (int (length ocr)))
           \<and> res ''embedded_images'' = None
           \<and> dom res = {''ocr_chars'', ''doc_id'', ''ingested_images'', ''status''}"
    unfolding res by simp
  show ?thesis
    using io fields by - (rule exI[of _ img], rule exI[of _ ocr], simp)
qed

lemmas ingest_eval =
  process_upload_def upload_content_type_def upload_filename_def stored_path_def path_join_def
  classify_def SUPPORTED_TEXT_def SUPPORTED_IMAGES_def SUPPORTED_PDF_def endswith_def
  endswith_any_def lower_def lower_char_def handle_upload_def call_def ext_def lift_def ret_def
  throw_def demo_ingest_env_def demo_upload_def Let_def

lemma demo_image_route:
  "classify (upload_content_type (demo_upload ''image/png'' ''x.bin''))
            (upload_filename (demo_upload ''image/png'' ''x.bin'') ''u'') = Some ImageRoute"
  by (simp add: ingest_eval)

lemma demo_image_upload:
  "snd (process_upload demo_ingest_env (demo_upload ''image/png'' ''x.bin'') ''u'' ''D'' ''T'')
     = Inr [''status'' \<mapsto> PStr ''ok'', ''ingested_images'' \<mapsto> PInt 1,
                ''doc_id'' \<mapsto> PStr ''D'', ''ocr_chars'' \<mapsto> PInt 0]"
  by (simp add: ingest_eval ingest_image_def ocr_image_def or_empty_def)

text \<open>An image upload that succeeds: its record has no key \<open>embedded_images\<close>.\<close>

theorem image_upload_result_counterexample:
  "map_sum id (\<lambda>res. (res ''embedded_images'', res ''ingested_images''))
     (snd (process_upload demo_ingest_env (demo_upload ''image/png'' ''x.bin'') ''u'' ''D'' ''T''))
   = Inr (None, Some (PInt 1))"
  by (simp add: demo_image_upload)

theorem image_upload_result_witness:
  "classify (upload_content_type (demo_upload ''image/png'' ''x.bin''))
            (upload_filename (demo_upload ''image/png'' ''x.bin'') ''u'') = Some ImageRoute
   \<and> (\<exists>es res. process_upload demo_ingest_env (demo_upload ''image/png'' ''x.bin'') ''u'' ''D'' ''T''
                  = (es, Inr res)
         \<and> res ''ingested_images'' = Some (PInt 1) \<and> res ''ocr_chars'' = Some (PInt 0)
         \<and> res ''doc_id'' = Some (PStr ''D''))"
proof -
  obtain es res where run:
    "process_upload demo_ingest_env (demo_upload ''image/png'' ''x.bin'') ''u'' ''D'' ''T'' = (es, Inr res)"
    using demo_image_upload by (metis prod.collapse)
  from image_upload_result[OF demo_image_route run]
  obtain ocr where "ocr_image demo_ingest_env ''pixels'' = Inr ocr"
    "res ''ingested_images'' = Some (PInt 1)" "res ''ocr_chars'' = Some (PInt (int (length ocr)))"
    "res ''doc_id'' = Some (PStr ''D'')"
    by (auto simp: demo_ingest_env_def)
  moreover have "ocr_image demo_ingest_env ''pixels'' = Inr []"
    by (simp add: ocr_image_def demo_ingest_env_def)
  ultimately have "res ''ingested_images'' = Some (PInt 1) \<and> res ''ocr_chars'' = Some (PInt 0)
         \<and> res ''doc_id'' = Some (PStr ''D'')" by simp
  with run demo_image_route show ?thesis by blast
qed

theorem ocr_never_raises_witness:
  "image_to_string demo_ingest_env ''pixels'' = Inl TesseractNotFoundError
   \<and> open_image demo_ingest_env ''data/uploads/a.png'' = Inr ''pixels''
   \<and> embed_image demo_ingest_env ''pixels'' = Inr [[1]]
   \<and> ocr_image demo_ingest_env ''pixels'' = Inr []
   \<and> upserted_ids (fst (ingest_image demo_ingest_env ''data/uploads/a.png'' ''D'' ''T'')) = [''img::D'']
   \<and> map_sum id (\<lambda>res. res ''ocr_chars'')
         (snd (ingest_image demo_ingest_env ''data/uploads/a.png'' ''D'' ''T'')) = Inr (Some (PInt 0))"
proof -
  have a: "image_to_string demo_ingest_env ''pixels'' = Inl TesseractNotFoundError"
    and b: "open_image demo_ingest_env ''data/uploads/a.png'' = Inr ''pixels''"
    and c: "embed_image demo_ingest_env ''pixels'' = Inr [[1]]"
    and u: "store_upsert_images demo_ingest_env [''img::'' @ ''D''] [[1]]
              [image_meta ''D'' ''data/uploads/a.png'' ''T'' []] = Inr ()"
    by (simp_all add: demo_ingest_env_def)
  note t = ocr_never_raises[of demo_ingest_env "''pixels''" "''data/uploads/a.png''" "''D''" "''T''"]
  from t a have o: "ocr_image demo_ingest_env ''pixels'' = Inr []" by blast
  from t a b c have f: "fst (ingest_image demo_ingest_env ''data/uploads/a.png'' ''D'' ''T'') =
          [EmbedImage ''pixels'', UpsertImages [''img::'' @ ''D''] [[1]]
             [image_meta ''D'' ''data/uploads/a.png'' ''T'' []]]"
    by blast
  from t a b c u have s: "snd (ingest_image demo_ingest_env ''data/uploads/a.png'' ''D'' ''T'') =
                   Inr [''status'' \<mapsto> PStr ''ok'', ''ingested_images'' \<mapsto> PInt 1,
                        ''doc_id'' \<mapsto> PStr ''D'', ''ocr_chars'' \<mapsto> PInt 0]"
    by blast
  show ?thesis
    unfolding f s using a b c o by simp
qed

subsection \<open>strip\<close>

lemma dropWhile_keeps: "x \<in> set xs \<Longrightarrow> \<not> P x \<Longrightarrow> x \<in> set (dropWhile P xs)"
  by (induction xs) auto

lemma strip_keeps: "c \<in> set s \<Longrightarrow> \<not> is_space c \<Longrightarrow> c \<in> set (strip s)"
  by (simp add: strip_def dropWhile_keeps)

lemma set_strip: "set (strip s) \<subseteq> set s"
proof -
  have "set (strip s) \<subseteq> set (dropWhile is_space s)"
    unfolding strip_def using set_dropWhileD[of _ is_space "rev (dropWhile is_space s)"] by auto
  also have "\<dots> \<subseteq> set s" using set_dropWhileD[of _ is_space s] by auto
  finally show ?thesis .
qed

lemma strip_all_space: "(\<forall>c \<in> set s. is_space c) \<Longrightarrow> strip s = []"
proof -
  assume "\<forall>c \<in> set s. is_space c"
  then have d: "dropWhile is_space s = []" by (simp add: dropWhile_eq_Nil_conv)
  show ?thesis unfolding strip_def d by simp
qed

lemma strip_empty_iff: "strip s = [] \<longleftrightarrow> (\<forall>c \<in> set s. is_space c)"
proof
  assume e: "strip s = []"
  show "\<forall>c \<in> set s. is_space c"
  proof (rule ballI, rule ccontr)
    fix c assume "c \<in> set s" "\<not> is_space c"
    then have "c \<in> set (strip s)" by (rule strip_keeps)
    with e show False by simp
  qed
qed (rule strip_all_space)

subsection \<open>split\<close>

lemma split_blank_nonempty [simp]: "split_blank t \<noteq> []"
  by (induction t rule: split_blank.induct) (simp_all add: push_def split: list.split)

lemma split_blank_cases: obtains seg rest where "split_blank t = seg # rest"
  using split_blank_nonempty[of t] by (cases "split_blank t") auto

lemma chars_split_blank_sub: "seg \<in> set (split_blank t) \<Longrightarrow> set seg \<subseteq> set t"
proof (induction t arbitrary: seg rule: split_blank.induct)
  case 1
  then show ?case by simp
next
  case (2 c)
  then show ?case by simp
next
  case (3 c d cs)
  show ?case
  proof (cases "c = NL \<and> d = NL")
    case True
    with 3 show ?thesis by auto
  next
    case False
    obtain s0 rest where sb: "split_blank (d # cs) = s0 # rest" by (rule split_blank_cases)
    from 3(2)[OF False] sb have ih: "set s0 \<subseteq> set (d # cs)" "\<forall>r \<in> set rest. set r \<subseteq> set (d # cs)"
      by simp_all
    from 3(3) False sb have "seg = c # s0 \<or> seg \<in> set rest" by (auto simp: push_def)
    with ih show ?thesis by auto
  qed
qed

lemma chars_split_blank_sup:
  "c \<in> set t \<Longrightarrow> c \<noteq> NL \<Longrightarrow> \<exists>seg \<in> set (split_blank t). c \<in> set seg"
proof (induction t rule: split_blank.induct)
  case 1
  then show ?case by simp
next
  case (2 x)
  then show ?case by simp
next
  case (3 x d cs)
  show ?case
  proof (cases "x = NL \<and> d = NL")
    case True
    with 3(3,4) have "c \<in> set cs" by auto
    from 3(1)[OF True this 3(4)] True show ?thesis by auto
  next
    case False
    obtain s0 rest where sb: "split_blank (d # cs) = s0 # rest" by (rule split_blank_cases)
    show ?thesis
    proof (cases "c = x")
      case True
      have "split_blank (x # d # cs) = (x # s0) # rest"
        using False sb by (auto simp: push_def)
      with True show ?thesis by simp
    next
      case nx: False
      with 3(3) have "c \<in> set (d # cs)" by simp
      from 3(2)[OF False this 3(4)] sb have "c \<in> set s0 \<or> (\<exists>r \<in> set rest. c \<in> set r)" by auto
      with False sb show ?thesis by (auto simp: push_def)
    qed
  qed
qed

lemma is_space_NL [simp]: "is_space NL"
  by (simp add: is_space_def)

lemma chunk_paragraphs_empty_iff: "chunk_paragraphs t = [] \<longleftrightarrow> (\<forall>c \<in> set t. is_space c)"
proof
  assume e: "chunk_paragraphs t = []"
  show "\<forall>c \<in> set t. is_space c"
  proof
    fix c assume c: "c \<in> set t"
    show "is_space c"
    proof (cases "c = NL")
      case True then show ?thesis by simp
    next
      case False
      with c chars_split_blank_sup[of c t] obtain seg where seg: "seg \<in> set (split_blank t)" "c \<in> set seg"
        by auto
      from e seg(1) have "strip seg = []"
        by (auto simp: chunk_paragraphs_def filter_empty_conv)
      with seg(2) show ?thesis by (simp add: strip_empty_iff)
    qed
  qed
next
  assume a: "\<forall>c \<in> set t. is_space c"
  have "strip seg = []" if "seg \<in> set (split_blank t)" for seg
  proof -
    from that have "set seg \<subseteq> set t" by (rule chars_split_blank_sub)
    with a show ?thesis by (auto simp: strip_empty_iff)
  qed
  then show "chunk_paragraphs t = []"
    by (simp add: chunk_paragraphs_def filter_empty_conv)
qed

lemma chunk_strip_empty_iff: "chunk_paragraphs (strip raw) = [] \<longleftrightarrow> (\<forall>c \<in> set raw. is_space c)"
proof -
  have "chunk_paragraphs (strip raw) = [] \<longleftrightarrow> (\<forall>c \<in> set (strip raw). is_space c)"
    by (rule chunk_paragraphs_empty_iff)
  also have "\<dots> \<longleftrightarrow> (\<forall>c \<in> set raw. is_space c)"
    using strip_keeps[of _ raw] set_strip[of raw] by blast
  finally show ?thesis .
qed

lemma ingest_text_empty:
  assumes "read_text env path = Inr raw" "strip raw = []"
  shows "ingest_text env path d t = ([], Inl (HTTPException 400 ''Empty text file''))"
  using assms by (simp add: ingest_text_def lift_def ext_def throw_def)

lemma ingest_text_nonempty:
  assumes "read_text env path = Inr raw" "strip raw \<noteq> []"
  shows "snd (ingest_text env path d t) \<noteq> Inl (HTTPException 400 ''Empty text file'')"
    and "fst (ingest_text env path d t) \<noteq> []"
  using assms
  by (auto simp: ingest_text_def lift_def ext_def throw_def call_def ret_def Let_def bind_io_def
      split: sum.splits prod.splits)

lemma process_upload_text:
  assumes "classify (upload_content_type file) (upload_filename file nu) = Some TextRoute"
  shows "process_upload env file nu d t =
           handle_upload (bind_io (call (WriteFile (stored_path file nu) (content file))
                                    (write_file env (stored_path file nu) (content file)))
                                  (\<lambda>_. ingest_text env (stored_path file nu) d t))"
  using assms by (simp add: process_upload_def Let_def)

text \<open>
  Claim C6. When the file can be read, the text ingestion raises the exception with the
  status 400 and the detail \<open>Empty text file\<close> exactly when the chunk sequence of the
  trimmed content is empty, which is exactly when every character of the file is white
  space. In that case it has called neither the embedding model nor the store, and the
  upload as a whole has only written the file and raises the same exception. In the
  other case the embedding model is called.
\<close>

theorem empty_text_document:
  assumes "read_text env path = Inr raw"
  shows "(snd (ingest_text env path d t) = Inl (HTTPException 400 ''Empty text file'')
            \<longleftrightarrow> chunk_paragraphs (strip raw) = [])
       \<and> (chunk_paragraphs (strip raw) = [] \<longleftrightarrow> (\<forall>c \<in> set raw. is_space c))
       \<and> (chunk_paragraphs (strip raw) = [] \<longrightarrow> fst (ingest_text env path d t) = [])
       \<and> (chunk_paragraphs (strip raw) \<noteq> [] \<longrightarrow> fst (ingest_text env path d t) \<noteq> [])
       \<and> (\<forall>file nu.
            classify (upload_content_type file) (upload_filename file nu) = Some TextRoute
            \<and> stored_path file nu = path \<and> write_file env path (content file) = Inr ()
            \<and> chunk_paragraphs (strip raw) = []
            \<longrightarrow> process_upload env file nu d t =
                  ([WriteFile path (content file)], Inl (HTTPException 400 ''Empty text file'')))"
proof -
  have iff: "chunk_paragraphs (strip raw) = [] \<longleftrightarrow> strip raw = []"
    by (simp only: chunk_strip_empty_iff strip_empty_iff)
  have c1: "snd (ingest_text env path d t) = Inl (HTTPException 400 ''Empty text file'')
            \<longleftrightarrow> chunk_paragraphs (strip raw) = []"
  proof (cases "strip raw = []")
    case True
    with iff ingest_text_empty[OF assms True, of d t] show ?thesis by simp
  next
    case False
    with iff ingest_text_nonempty(1)[OF assms False, of d t] show ?thesis by simp
  qed
  have c2: "chunk_paragraphs (strip raw) = [] \<longleftrightarrow> (\<forall>c \<in> set raw. is_space c)"
    by (rule chunk_strip_empty_iff)
  have c3: "chunk_paragraphs (strip raw) = [] \<longrightarrow> fst (ingest_text env path d t) = []"
  proof
    assume "chunk_paragraphs (strip raw) = []"
    with iff have "strip raw = []" by simp
    from ingest_text_empty[OF assms this, of d t] show "fst (ingest_text env path d t) = []" by simp
  qed
  have c4: "chunk_paragraphs (strip raw) \<noteq> [] \<longrightarrow> fst (ingest_text env path d t) \<noteq> []"
  proof
    assume "chunk_paragraphs (strip raw) \<noteq> []"
    with iff have "strip raw \<noteq> []" by simp
    from ingest_text_nonempty(2)[OF assms this] show "fst (ingest_text env path d t) \<noteq> []" .
  qed
  have c5: "\<forall>file nu.
            classify (upload_content_type file) (upload_filename file nu) = Some TextRoute
            \<and> stored_path file nu = path \<and> write_file env path (content file) = Inr ()
            \<and> chunk_paragraphs (strip raw) = []
            \<longrightarrow> process_upload env file nu d t =
                  ([WriteFile path (content file)], Inl (HTTPException 400 ''Empty text file''))"
  proof (intro allI impI)
    fix upl nu
    assume a: "classify (upload_content_type upl) (upload_filename upl nu) = Some TextRoute
            \<and> stored_path upl nu = path \<and> write_file env path (content upl) = Inr ()
            \<and> chunk_paragraphs (strip raw) = []"
    with iff have e: "strip raw = []" by simp
    from a have r: "classify (upload_content_type upl) (upload_filename upl nu) = Some TextRoute"
      and p: "stored_path upl nu = path" and w: "write_file env path (content upl) = Inr ()"
      by simp_all
    show "process_upload env upl nu d t =
                  ([WriteFile path (content upl)], Inl (HTTPException 400 ''Empty text file''))"
      unfolding process_upload_text[OF r] p
      by (simp add: ingest_text_empty[OF assms e] call_def ext_def w handle_upload_def)
  qed
  show ?thesis by (intro conjI) (rule c1, rule c2, rule c3, rule c4, rule c5)
qed

theorem empty_text_document_witness:
  "read_text blank_env ''data/uploads/a.txt'' = Inr '' \<newline>\<newline> ''
   \<and> chunk_paragraphs (strip '' \<newline>\<newline> '') = []
   \<and> classify (upload_content_type (demo_upload ''text/plain'' ''a.txt''))
               (upload_filename (demo_upload ''text/plain'' ''a.txt'') ''u'') = Some TextRoute
   \<and> process_upload blank_env (demo_upload ''text/plain'' ''a.txt'') ''u'' ''D'' ''T'' =
        ([WriteFile ''data/uploads/a.txt'' ''bytes''], Inl (HTTPException 400 ''Empty text file''))
   \<and> read_text demo_ingest_env ''data/uploads/a.txt'' = Inr ''A\<newline>\<newline>B\<newline>\<newline>\<newline>C''
   \<and> snd (ingest_text demo_ingest_env ''data/uploads/a.txt'' ''D'' ''T'')
        \<noteq> Inl (HTTPException 400 ''Empty text file'')"
proof -
  have r: "read_text blank_env ''data/uploads/a.txt'' = Inr '' \<newline>\<newline> ''"
    by (simp add: blank_env_def demo_ingest_env_def)
  have c: "chunk_paragraphs (strip '' \<newline>\<newline> '') = []"
    by (simp add: chunk_paragraphs_def strip_def is_space_def)
  have k: "classify (upload_content_type (demo_upload ''text/plain'' ''a.txt''))
               (upload_filename (demo_upload ''text/plain'' ''a.txt'') ''u'') = Some TextRoute"
    by (simp add: ingest_eval)
  have p: "stored_path (demo_upload ''text/plain'' ''a.txt'') ''u'' = ''data/uploads/a.txt''"
    by (simp add: ingest_eval)
  have w: "write_file blank_env ''data/uploads/a.txt'' (content (demo_upload ''text/plain'' ''a.txt'')) = Inr ()"
    by (simp add: blank_env_def demo_ingest_env_def)
  have b: "content (demo_upload ''text/plain'' ''a.txt'') = ''bytes''"
    by (simp add: demo_upload_def)
  note t1 = empty_text_document[OF r, of "''D''" "''T''"]
  from t1 k p w c have u: "process_upload blank_env (demo_upload ''text/plain'' ''a.txt'') ''u'' ''D'' ''T'' =
        ([WriteFile ''data/uploads/a.txt'' (content (demo_upload ''text/plain'' ''a.txt''))],
         Inl (HTTPException 400 ''Empty text file''))"
    by blast
  have r2: "read_text demo_ingest_env ''data/uploads/a.txt'' = Inr ''A\<newline>\<newline>B\<newline>\<newline>\<newline>C''"
    by (simp add: demo_ingest_env_def)
  have c2: "chunk_paragraphs (strip ''A\<newline>\<newline>B\<newline>\<newline>\<newline>C'') \<noteq> []"
    by (simp add: chunk_paragraphs_def strip_def is_space_def push_def)
  note t2 = empty_text_document[OF r2, of "''D''" "''T''"]
  from t2 c2 have n: "snd (ingest_text demo_ingest_env ''data/uploads/a.txt'' ''D'' ''T'')
        \<noteq> Inl (HTTPException 400 ''Empty text file'')"
    by blast
  show ?thesis
    using r c k u[unfolded b] r2 n by (intro conjI)
qed

subsection \<open>Classification\<close>

lemma process_upload_unclassified:
  assumes "classify (upload_content_type file) (upload_filename file nu) = None"
      and "write_file env (stored_path file nu) (content file) = Inr ()"
  shows "process_upload env file nu d t =
           ([WriteFile (stored_path file nu) (content file)],
            Inl (HTTPException 415 (''Unsupported file type: '' @ upload_content_type file)))"
  using assms
  by (simp add: process_upload_def Let_def call_def ext_def throw_def handle_upload_def)

lemma classify_routes:
  "classify ct fn =
     (case (content_type_route ct, extension_route fn) of
        (None, None) \<Rightarrow> None
      | (Some r, None) \<Rightarrow> Some r
      | (None, Some r) \<Rightarrow> Some r
      | (Some r1, Some r2) \<Rightarrow> Some (if route_rank r1 \<le> route_rank r2 then r1 else r2))"
  by (simp add: classify_def content_type_route_def extension_route_def)

text \<open>
  Claim C3, as the code has it. The types are tried in the order text, image, PDF, and
  a file goes to the first type that its content-type names (\<open>text/plain\<close>; \<open>image/png\<close>,
  \<open>image/jpeg\<close>, \<open>image/jpg\<close>; \<open>application/pdf\<close>) or that its lower-cased filename names by
  its ending (\<open>.txt\<close>; \<open>.png\<close>, \<open>.jpg\<close>, \<open>.jpeg\<close>; \<open>.pdf\<close>): of the two routes the two tests
  give, the earlier one in the chain. So the content-type decides when the filename has
  none of the endings, and the ending decides when the content-type is in none of the
  sets. An upload that neither test classifies, once stored, raises the exception with
  the status 415 whose detail carries the content-type.
\<close>

theorem classification_order:
  "classify ct fn =
     (case (content_type_route ct, extension_route fn) of
        (None, None) \<Rightarrow> None
      | (Some r, None) \<Rightarrow> Some r
      | (None, Some r) \<Rightarrow> Some r
      | (Some r1, Some r2) \<Rightarrow> Some (if route_rank r1 \<le> route_rank r2 then r1 else r2))
   \<and> (extension_route fn = None \<longrightarrow> classify ct fn = content_type_route ct)
   \<and> (content_type_route ct = None \<longrightarrow> classify ct fn = extension_route fn)
   \<and> (content_type_route ct \<noteq> None \<longleftrightarrow>
        ct \<in> {''text/plain'', ''image/png'', ''image/jpeg'', ''image/jpg'', ''application/pdf''})
   \<and> (extension_route fn \<noteq> None \<longleftrightarrow>
        endswith_any (lower fn) [''.txt'', ''.png'', ''.jpg'', ''.jpeg'', ''.pdf''])
   \<and> (content_type_route (upload_content_type file) = None
        \<and> extension_route (upload_filename file nu) = None
        \<and> write_file env (stored_path file nu) (content file) = Inr ()
        \<longrightarrow> process_upload env file nu d t =
              ([WriteFile (stored_path file nu) (content file)],
               Inl (HTTPException 415 (''Unsupported file type: '' @ upload_content_type file))))"
proof -
  have c2: "extension_route fn = None \<longrightarrow> classify ct fn = content_type_route ct"
    by (simp add: classify_routes split: option.split)
  have c3: "content_type_route ct = None \<longrightarrow> classify ct fn = extension_route fn"
    by (simp add: classify_routes split: option.split)
  have c4: "content_type_route ct \<noteq> None \<longleftrightarrow>
        ct \<in> {''text/plain'', ''image/png'', ''image/jpeg'', ''image/jpg'', ''application/pdf''}"
    by (simp add: content_type_route_def SUPPORTED_TEXT_def SUPPORTED_IMAGES_def SUPPORTED_PDF_def)
  have c5: "extension_route fn \<noteq> None \<longleftrightarrow>
        endswith_any (lower fn) [''.txt'', ''.png'', ''.jpg'', ''.jpeg'', ''.pdf'']"
    by (simp add: extension_route_def endswith_any_def)
  have c6: "content_type_route (upload_content_type file) = None
        \<and> extension_route (upload_filename file nu) = None
        \<and> write_file env (stored_path file nu) (content file) = Inr ()
        \<longrightarrow> process_upload env file nu d t =
              ([WriteFile (stored_path file nu) (content file)],
               Inl (HTTPException 415 (''Unsupported file type: '' @ upload_content_type file)))"
  proof
    assume a: "content_type_route (upload_content_type file) = None
        \<and> extension_route (upload_filename file nu) = None
        \<and> write_file env (stored_path file nu) (content file) = Inr ()"
    then have "classify (upload_content_type file) (upload_filename file nu) = None"
      by (simp add: classify_routes)
    with a show "process_upload env file nu d t =
              ([WriteFile (stored_path file nu) (content file)],
               Inl (HTTPException 415 (''Unsupported file type: '' @ upload_content_type file)))"
      by (simp add: process_upload_unclassified)
  qed
  show ?thesis by (intro conjI) (rule classify_routes, rule c2, rule c3, rule c4, rule c5, rule c6)
qed

text \<open>
  A PDF content-type with a \<open>.txt\<close> filename is routed as text, although the content-type
  classifies the file; and \<open>image/jpg\<close>, which is not among the content-types the claim
  lists, is routed as an image.
\<close>

theorem classification_order_counterexample:
  "classify ''application/pdf'' ''notes.txt'' = Some TextRoute
   \<and> spec_classify ''application/pdf'' ''notes.txt'' = Some PdfRoute
   \<and> classify ''image/jpg'' ''blob'' = Some ImageRoute
   \<and> spec_classify ''image/jpg'' ''blob'' = None"
  by (simp add: classify_def spec_classify_def spec_content_type_route_def extension_route_def
      SUPPORTED_TEXT_def SUPPORTED_IMAGES_def SUPPORTED_PDF_def endswith_def endswith_any_def
      lower_def lower_char_def)

theorem classification_order_witness:
  "extension_route ''blob'' = None
   \<and> classify ''application/pdf'' ''blob'' = Some PdfRoute
   \<and> content_type_route ''application/octet-stream'' = None
   \<and> classify ''application/octet-stream'' ''Scan.JPEG'' = Some ImageRoute
   \<and> content_type_route (upload_content_type (demo_upload ''x/y'' ''blob'')) = None
   \<and> extension_route (upload_filename (demo_upload ''x/y'' ''blob'') ''u'') = None
   \<and> process_upload demo_ingest_env (demo_upload ''x/y'' ''blob'') ''u'' ''D'' ''T'' =
        ([WriteFile ''data/uploads/blob'' ''bytes''],
         Inl (HTTPException 415 ''Unsupported file type: x/y''))"
proof -
  have e1: "extension_route ''blob'' = None"
    by (simp add: extension_route_def endswith_def endswith_any_def lower_def lower_char_def)
  have r1: "content_type_route ''application/pdf'' = Some PdfRoute"
    by (simp add: content_type_route_def SUPPORTED_TEXT_def SUPPORTED_IMAGES_def SUPPORTED_PDF_def)
  have e2: "content_type_route ''application/octet-stream'' = None"
    by (simp add: content_type_route_def SUPPORTED_TEXT_def SUPPORTED_IMAGES_def SUPPORTED_PDF_def)
  have r2: "extension_route ''Scan.JPEG'' = Some ImageRoute"
    by (simp add: extension_route_def endswith_def endswith_any_def lower_def lower_char_def)
  have e3: "content_type_route (upload_content_type (demo_upload ''x/y'' ''blob'')) = None"
    by (simp add: content_type_route_def SUPPORTED_TEXT_def SUPPORTED_IMAGES_def SUPPORTED_PDF_def
        upload_content_type_def demo_upload_def)
  have e4: "extension_route (upload_filename (demo_upload ''x/y'' ''blob'') ''u'') = None"
    by (simp add: upload_filename_def demo_upload_def e1)
  have w: "write_file demo_ingest_env (stored_path (demo_upload ''x/y'' ''blob'') ''u'')
             (content (demo_upload ''x/y'' ''blob'')) = Inr ()"
    by (simp add: demo_ingest_env_def)
  have v: "stored_path (demo_upload ''x/y'' ''blob'') ''u'' = ''data/uploads/blob''"
       "content (demo_upload ''x/y'' ''blob'') = ''bytes''"
       "upload_content_type (demo_upload ''x/y'' ''blob'') = ''x/y''"
    by (simp_all add: stored_path_def upload_filename_def upload_content_type_def demo_upload_def
        path_join_def)
  from classification_order[of "''application/pdf''" "''blob''"] e1 r1
  have a: "classify ''application/pdf'' ''blob'' = Some PdfRoute" by simp
  from classification_order[of "''application/octet-stream''" "''Scan.JPEG''"] e2 r2
  have b: "classify ''application/octet-stream'' ''Scan.JPEG'' = Some ImageRoute" by simp
  from classification_order[of _ _ "demo_upload ''x/y'' ''blob''" "''u''" demo_ingest_env "''D''" "''T''"]
    e3 e4 w
  have c: "process_upload demo_ingest_env (demo_upload ''x/y'' ''blob'') ''u'' ''D'' ''T'' =
        ([WriteFile ''data/uploads/blob'' ''bytes''],
         Inl (HTTPException 415 ''Unsupported file type: x/y''))"
    unfolding v by simp
  show ?thesis by (intro conjI) (rule e1, rule a, rule e2, rule b, rule e3, rule e4, rule c)
qed

subsection \<open>Effects of an ingestion\<close>

lemma in_effects_bind:
  "e \<in> set (fst (bind_io m f)) \<longleftrightarrow>
     e \<in> set (fst m) \<or> (\<exists>a. snd m = Inr a \<and> e \<in> set (fst (f a)))"
  by (cases m; cases "snd m") (auto simp: bind_io_def split: prod.splits)

lemma fst_ret [simp]: "fst (ret a) = []" and snd_ret [simp]: "snd (ret a) = Inr a"
  by (simp_all add: ret_def)

lemma fst_lift [simp]: "fst (lift r) = []" and snd_lift [simp]: "snd (lift r) = r"
  by (simp_all add: lift_def)

lemma fst_throw [simp]: "fst (throw e) = []" and snd_throw [simp]: "snd (throw e) = Inl e"
  by (simp_all add: throw_def)

lemma fst_call [simp]: "fst (call ef r) = [ef]" and snd_call [simp]: "snd (call ef r) = ext r"
  by (simp_all add: call_def)

lemma snd_bind_io_Inr:
  "snd (bind_io m f) = Inr b \<longleftrightarrow> (\<exists>a. snd m = Inr a \<and> snd (f a) = Inr b)"
  by (cases m; cases "snd m") (auto simp: bind_io_def split: prod.splits)

lemma str_int_nat [simp]: "str_int (int n) = str_nat n"
  by (simp add: str_int_def)

subsection \<open>Loops\<close>

lemma for_each_effects:
  "e \<in> set (fst (for_each f xs)) \<Longrightarrow> \<exists>x \<in> set xs. e \<in> set (fst (f x))"
  by (induction xs) (auto simp: in_effects_bind)

lemma for_each_results:
  "snd (for_each f xs) = Inr ys \<Longrightarrow> list_all2 (\<lambda>x y. snd (f x) = Inr y) xs ys"
proof (induction xs arbitrary: ys)
  case Nil
  then show ?case by simp
next
  case (Cons x xs)
  from Cons.prems obtain y ys' where "snd (f x) = Inr y" "snd (for_each f xs) = Inr ys'" "ys = y # ys'"
    by (auto simp: snd_bind_io_Inr)
  with Cons.IH show ?case by simp
qed

lemma map_err_results:
  "map_err f xs = Inr ys \<Longrightarrow> list_all2 (\<lambda>x y. f x = Inr y) xs ys"
  by (induction xs arbitrary: ys) (auto split: sum.splits)

subsection \<open>Plain text and whole images\<close>

lemma ingest_text_upsert:
  assumes "UpsertText idents emb metas docs \<in> set (fst (ingest_text env path d t))"
  shows "\<exists>n. idents = map (\<lambda>i. ''txt::'' @ d @ ''::'' @ str_nat i) [0..<n]
           \<and> metas = map (text_meta d path t) [0..<n]"
  using assms
  by (auto simp: ingest_text_def in_effects_bind Let_def split: if_splits)

lemma ingest_text_no_image_upsert:
  "UpsertImages idents emb metas \<notin> set (fst (ingest_text env path d t))"
  by (auto simp: ingest_text_def in_effects_bind Let_def split: if_splits)

lemma ingest_image_upsert:
  assumes "UpsertImages idents emb metas \<in> set (fst (ingest_image env path d t))"
  shows "idents = [''img::'' @ d] \<and> (\<exists>ocr. metas = [image_meta d path t ocr])"
  using assms
  by (auto simp: ingest_image_def in_effects_bind Let_def split: if_splits)

lemma ingest_image_no_text_upsert:
  "UpsertText idents emb metas docs \<notin> set (fst (ingest_image env path d t))"
  by (auto simp: ingest_image_def in_effects_bind Let_def split: if_splits)

subsection \<open>Digits and basenames\<close>

lemma digit_char_digit: "n < 10 \<Longrightarrow> digit_char n \<in> set ''0123456789''"
  unfolding digit_char_def by (rule nth_mem) simp

lemma str_nat_digits: "set (str_nat n) \<subseteq> set ''0123456789''"
proof (induction n rule: str_nat.induct)
  case (1 n)
  show ?case
  proof (cases "n < 10")
    case True
    then show ?thesis using digit_char_digit[of n] by (subst str_nat.simps) simp
  next
    case False
    have "n mod 10 < 10" by simp
    from digit_char_digit[OF this] 1[OF False] False show ?thesis
      by (subst str_nat.simps) simp
  qed
qed

lemma str_nat_no_slash: "CHR ''/'' \<notin> set (str_nat n)"
  using str_nat_digits[of n] by auto

lemma basename_append:
  assumes "CHR ''/'' \<notin> set b" "a = [] \<or> last a = CHR ''/''"
  shows "basename (a @ b) = b"
proof -
  have "takeWhile (\<lambda>c. c \<noteq> CHR ''/'') (rev a) = []"
    using assms(2) by (cases a rule: rev_cases) auto
  moreover have "\<forall>c \<in> set (rev b). c \<noteq> CHR ''/''" using assms(1) by auto
  ultimately have "takeWhile (\<lambda>c. c \<noteq> CHR ''/'') (rev b @ rev a) = rev b"
    using takeWhile_append2[of "rev b" "\<lambda>c. c \<noteq> CHR ''/''" "rev a"] by simp
  then show ?thesis by (simp add: basename_def)
qed

lemma basename_path_join:
  assumes "CHR ''/'' \<notin> set b" "b \<noteq> []"
  shows "basename (path_join a b) = b"
proof -
  from assms have nb: "hd b \<noteq> CHR ''/''" by (cases b) auto
  show ?thesis
  proof (cases "a = [] \<or> last a = CHR ''/''")
    case True
    with nb show ?thesis using basename_append[OF assms(1) True] by (auto simp: path_join_def)
  next
    case False
    have "basename ((a @ ''/'') @ b) = b" by (rule basename_append[OF assms(1)]) simp
    with False nb show ?thesis by (simp add: path_join_def)
  qed
qed

lemma page_file_no_slash: "CHR ''/'' \<notin> set (''page'' @ str_nat p @ ''.png'')"
  using str_nat_no_slash[of p] by simp

subsection \<open>The two passes over a PDF\<close>

lemma extract_pdf_text_no_effects [simp]: "fst (extract_pdf_text_per_page env path) = []"
  by (simp add: extract_pdf_text_per_page_def bind_io_def lift_def ext_def ret_def split: sum.split)

lemma render_one_no_effects [simp]: "fst (render_one env path dir i) = []"
  by (simp add: render_one_def Let_def bind_io_def lift_def ext_def ret_def split: sum.split)

lemma render_one_result:
  "snd (render_one env path dir i) = Inr r \<Longrightarrow>
     rec_page r = i + 1 \<and> rec_path r = path_join dir (''page'' @ str_nat (i + 1) @ ''.png'')"
  by (auto simp: render_one_def Let_def snd_bind_io_Inr)

lemma extract_pdf_images_effects: "e \<notin> set (fst (extract_pdf_images env path dir))"
  by (auto simp: extract_pdf_images_def in_effects_bind dest: for_each_effects)

lemma extract_pdf_images_result:
  assumes "snd (extract_pdf_images env path dir) = Inr recs" "r \<in> set recs"
  shows "rec_path r = path_join dir (''page'' @ str_nat (rec_page r) @ ''.png'') \<and> 0 < rec_page r"
proof -
  from assms(1) obtain n where "snd (for_each (render_one env path dir) [0..<n]) = Inr recs"
    by (auto simp: extract_pdf_images_def snd_bind_io_Inr)
  from for_each_results[OF this] assms(2)
  obtain i where "snd (render_one env path dir i) = Inr r"
    by (auto simp: in_set_conv_nth list_all2_conv_all_nth)
  from render_one_result[OF this] show ?thesis by simp
qed

lemma pdf_image_unit_effects:
  "e \<in> set (fst (pdf_image_unit env d path t r)) \<Longrightarrow> \<exists>img. e = EmbedImage img"
  by (auto simp: pdf_image_unit_def Let_def in_effects_bind)

lemma pdf_image_unit_result:
  assumes "snd (pdf_image_unit env d path t r) = Inr u"
  shows "fst u = ''pdfimg::'' @ d @ ''::p'' @ str_nat (rec_page r) @ ''::'' @ basename (rec_path r)
       \<and> snd (snd u) ''page'' = Some (PInt (int (rec_page r)))
       \<and> snd (snd u) ''image_path'' = Some (PStr (rec_path r))
       \<and> snd (snd u) ''chunk_index'' = None"
  using assms by (auto simp: pdf_image_unit_def Let_def snd_bind_io_Inr)

lemma pdf_text_units_meta:
  "m \<in> snd ` set (pdf_text_units d path t pages) \<Longrightarrow> \<exists>p c. m = pdf_text_meta d path t p c"
proof -
  assume "m \<in> snd ` set (pdf_text_units d path t pages)"
  then obtain p c where "m = pdf_text_meta d path t p c"
    by (auto simp: pdf_text_units_def split: if_splits)
  then show ?thesis by (intro exI)
qed

lemma pdf_text_id_meta:
  "pdf_text_id d (pdf_text_meta d' path t p c) =
     Inr (''pdftext::'' @ d @ ''::p'' @ str_nat p @ ''::c'' @ str_nat c)"
  by (simp add: pdf_text_id_def pdf_text_meta_def dict_item_def bind_err_def)

lemma pdf_text_meta_keys:
  "pdf_text_meta d path t p c ''page'' = Some (PInt (int p))"
  "pdf_text_meta d path t p c ''chunk_index'' = Some (PInt (int c))"
  by (simp_all add: pdf_text_meta_def)

lemma image_loop_effects:
  "e \<in> set (fst (for_each (pdf_image_unit env d path t) recs)) \<Longrightarrow> \<exists>img. e = EmbedImage img"
  using for_each_effects pdf_image_unit_effects by fast

lemma ingest_pdf_text_upsert:
  assumes "UpsertText idents emb metas docs \<in> set (fst (ingest_pdf env path d t))"
  shows "\<exists>pages. metas = map snd (pdf_text_units d path t pages)
           \<and> map_err (pdf_text_id d) metas = Inr idents"
  using assms
  by (auto simp: ingest_pdf_def Let_def in_effects_bind extract_pdf_images_effects
      dest!: image_loop_effects split: if_splits)

lemma ingest_pdf_image_upsert:
  assumes "UpsertImages idents emb metas \<in> set (fst (ingest_pdf env path d t))"
  shows "\<exists>dir recs units. snd (extract_pdf_images env path dir) = Inr recs
           \<and> snd (for_each (pdf_image_unit env d path t) recs) = Inr units
           \<and> idents = map fst units \<and> metas = map (\<lambda>u. snd (snd u)) units"
  using assms
  by (auto simp: ingest_pdf_def Let_def in_effects_bind extract_pdf_images_effects
      dest!: image_loop_effects split: if_splits)

lemmas pdf_eval =
  ingest_pdf_def extract_pdf_text_per_page_def extract_pdf_images_def render_one_def
  pdf_image_unit_def pdf_text_units_def pdf_text_id_def dict_item_def bind_err_def
  ocr_image_def or_empty_def index_def basename_def splitext_root_def path_join_def
  chunk_paragraphs_def strip_def is_space_def push_def enumerate_eq_zip
  call_def ext_def lift_def ret_def throw_def demo_ingest_env_def Let_def
  str_nat.simps digit_char_def

lemma demo_text_effects:
  "fst (ingest_text demo_ingest_env ''data/uploads/a.txt'' ''D'' ''T'') =
     [EmbedText [''A'', ''B'', ''C''],
      UpsertText [''txt::D::0'', ''txt::D::1'', ''txt::D::2''] [[1], [1], [1]]
        (map (text_meta ''D'' ''data/uploads/a.txt'' ''T'') [0, 1, 2]) [''A'', ''B'', ''C'']]"
  by (simp add: ingest_text_def chunk_paragraphs_def strip_def is_space_def push_def
      call_def ext_def lift_def ret_def demo_ingest_env_def Let_def str_nat.simps digit_char_def
      upt_rec numeral_2_eq_2)

lemma demo_pdf_ids:
  "upserted_ids (fst (ingest_pdf demo_ingest_env ''data/uploads/a.pdf'' ''D'' ''T'')) =
     [''pdftext::D::p1::c0'', ''pdftext::D::p1::c1'',
      ''pdfimg::D::p1::page1.png'', ''pdfimg::D::p2::page2.png'']"
  by (simp add: pdf_eval pdf_text_meta_def str_int_def upt_rec)

text \<open>
  Claim C4, as the code has it. Every id handed to the store has one of four forms, each
  a function of the document id and of the position its metadata records:
  \<open>txt::<doc_id>::<chunk_index>\<close> for a chunk of a text file (the index without a \<open>c\<close>),
  \<open>img::<doc_id>\<close> for a whole image, \<open>pdftext::<doc_id>::p<page>::c<chunk_index>\<close> for a
  chunk of a PDF page, and \<open>pdfimg::<doc_id>::p<page>::page<page>.png\<close> for a rendered page,
  whose last part is the basename of the rendered file. A text ingestion upserts no
  image and an image ingestion no text.
\<close>

theorem unit_id_schema:
  "(\<forall>idents emb metas docs.
      UpsertText idents emb metas docs \<in> set (fst (ingest_text env path d t)) \<longrightarrow>
      list_all2 (\<lambda>u m. \<exists>i. m ''chunk_index'' = Some (PInt (int i)) \<and> m ''page'' = None
                    \<and> u = ''txt::'' @ d @ ''::'' @ str_nat i) idents metas)
   \<and> (\<forall>idents emb metas.
      UpsertImages idents emb metas \<in> set (fst (ingest_image env path d t)) \<longrightarrow>
      idents = [''img::'' @ d] \<and> length metas = 1)
   \<and> (\<forall>idents emb metas docs.
      UpsertText idents emb metas docs \<in> set (fst (ingest_pdf env path d t)) \<longrightarrow>
      list_all2 (\<lambda>u m. \<exists>p c. m ''page'' = Some (PInt (int p))
                    \<and> m ''chunk_index'' = Some (PInt (int c))
                    \<and> u = ''pdftext::'' @ d @ ''::p'' @ str_nat p @ ''::c'' @ str_nat c) idents metas)
   \<and> (\<forall>idents emb metas.
      UpsertImages idents emb metas \<in> set (fst (ingest_pdf env path d t)) \<longrightarrow>
      list_all2 (\<lambda>u m. \<exists>p. m ''page'' = Some (PInt (int p)) \<and> m ''chunk_index'' = None
                    \<and> u = ''pdfimg::'' @ d @ ''::p'' @ str_nat p @ ''::'' @ ''page'' @ str_nat p @ ''.png'')
                idents metas)
   \<and> (\<forall>idents emb metas. UpsertImages idents emb metas \<notin> set (fst (ingest_text env path d t)))
   \<and> (\<forall>idents emb metas docs. UpsertText idents emb metas docs \<notin> set (fst (ingest_image env path d t)))"
proof (intro conjI allI impI)
  fix idents emb metas docs
  assume "UpsertText idents emb metas docs \<in> set (fst (ingest_text env path d t))"
  from ingest_text_upsert[OF this] obtain n where
    n: "idents = map (\<lambda>i. ''txt::'' @ d @ ''::'' @ str_nat i) [0..<n]"
       "metas = map (text_meta d path t) [0..<n]"
    by blast
  have "\<exists>j. text_meta d path t i ''chunk_index'' = Some (PInt (int j))
           \<and> text_meta d path t i ''page'' = None
           \<and> ''txt::'' @ d @ ''::'' @ str_nat i = ''txt::'' @ d @ ''::'' @ str_nat j" for i
    by (rule exI[of _ i]) (simp add: text_meta_def)
  then show "list_all2 (\<lambda>u m. \<exists>i. m ''chunk_index'' = Some (PInt (int i)) \<and> m ''page'' = None
                    \<and> u = ''txt::'' @ d @ ''::'' @ str_nat i) idents metas"
    unfolding n by (simp add: list_all2_map1 list_all2_map2 list_all2_same)
next
  fix idents emb metas
  assume "UpsertImages idents emb metas \<in> set (fst (ingest_image env path d t))"
  from ingest_image_upsert[OF this] show "idents = [''img::'' @ d]" "length metas = 1"
    by auto
next
  fix idents emb metas docs
  assume "UpsertText idents emb metas docs \<in> set (fst (ingest_pdf env path d t))"
  from ingest_pdf_text_upsert[OF this] obtain pages where
    m: "metas = map snd (pdf_text_units d path t pages)"
    and i: "map_err (pdf_text_id d) metas = Inr idents"
    by blast
  have l: "list_all2 (\<lambda>m u. pdf_text_id d m = Inr u) metas idents"
    using map_err_results[OF i] .
  have "\<exists>p c. x ''page'' = Some (PInt (int p)) \<and> x ''chunk_index'' = Some (PInt (int c))
              \<and> u = ''pdftext::'' @ d @ ''::p'' @ str_nat p @ ''::c'' @ str_nat c"
    if "x \<in> set metas" "pdf_text_id d x = Inr u" for x u
  proof -
    from that(1) m have "x \<in> snd ` set (pdf_text_units d path t pages)" by simp
    from pdf_text_units_meta[OF this] obtain p c where x: "x = pdf_text_meta d path t p c" by blast
    from that(2) have "u = ''pdftext::'' @ d @ ''::p'' @ str_nat p @ ''::c'' @ str_nat c"
      unfolding x pdf_text_id_meta by simp
    then show ?thesis
      unfolding x by (intro exI[of _ p] exI[of _ c]) (simp add: pdf_text_meta_keys)
  qed
  with l have "list_all2 (\<lambda>m u. \<exists>p c. m ''page'' = Some (PInt (int p))
                    \<and> m ''chunk_index'' = Some (PInt (int c))
                    \<and> u = ''pdftext::'' @ d @ ''::p'' @ str_nat p @ ''::c'' @ str_nat c) metas idents"
    by (auto simp: list_all2_conv_all_nth)
  then show "list_all2 (\<lambda>u m. \<exists>p c. m ''page'' = Some (PInt (int p))
                    \<and> m ''chunk_index'' = Some (PInt (int c))
                    \<and> u = ''pdftext::'' @ d @ ''::p'' @ str_nat p @ ''::c'' @ str_nat c) idents metas"
    by (simp add: list_all2_conv_all_nth)
next
  fix idents emb metas
  assume "UpsertImages idents emb metas \<in> set (fst (ingest_pdf env path d t))"
  from ingest_pdf_image_upsert[OF this] obtain dir recs units where
    r: "snd (extract_pdf_images env path dir) = Inr recs"
    and u: "snd (for_each (pdf_image_unit env d path t) recs) = Inr units"
    and e: "idents = map fst units" "metas = map (\<lambda>u. snd (snd u)) units"
    by blast
  have l: "list_all2 (\<lambda>r u. snd (pdf_image_unit env d path t r) = Inr u) recs units"
    using for_each_results[OF u] .
  have "\<exists>p. snd (snd x) ''page'' = Some (PInt (int p)) \<and> snd (snd x) ''chunk_index'' = None
          \<and> fst x = ''pdfimg::'' @ d @ ''::p'' @ str_nat p @ ''::'' @ ''page'' @ str_nat p @ ''.png''"
    if "x \<in> set units" for x
  proof -
    from that obtain k where k: "k < length units" "units ! k = x"
      by (auto simp: in_set_conv_nth)
    from l k(1) have len: "k < length recs"
      and nth: "snd (pdf_image_unit env d path t (recs ! k)) = Inr (units ! k)"
      by (simp_all add: list_all2_conv_all_nth)
    define rc where "rc = recs ! k"
    have rc: "rc \<in> set recs" "snd (pdf_image_unit env d path t rc) = Inr x"
      using len nth k(2) by (simp_all add: rc_def)
    from extract_pdf_images_result[OF r rc(1)]
    have "rec_path rc = path_join dir (''page'' @ str_nat (rec_page rc) @ ''.png'')" by simp
    then have b: "basename (rec_path rc) = ''page'' @ str_nat (rec_page rc) @ ''.png''"
      using basename_path_join[OF page_file_no_slash, of "rec_page rc" dir] by simp
    from pdf_image_unit_result[OF rc(2)] b show ?thesis
      by (intro exI[of _ "rec_page rc"]) simp
  qed
  then show "list_all2 (\<lambda>u m. \<exists>p. m ''page'' = Some (PInt (int p)) \<and> m ''chunk_index'' = None
                    \<and> u = ''pdfimg::'' @ d @ ''::p'' @ str_nat p @ ''::'' @ ''page'' @ str_nat p @ ''.png'')
                idents metas"
    unfolding e by (simp add: list_all2_map1 list_all2_map2 list_all2_same)
next
  fix idents emb metas
  show "UpsertImages idents emb metas \<notin> set (fst (ingest_text env path d t))"
    by (rule ingest_text_no_image_upsert)
next
  fix idents emb metas docs
  show "UpsertText idents emb metas docs \<notin> set (fst (ingest_image env path d t))"
    by (rule ingest_image_no_text_upsert)
qed

text \<open>The first chunk of a text file gets the id \<open>txt::D::0\<close>; the schema of the claim
  gives \<open>txt::D::c0\<close> for the chunk 0 of the document \<open>D\<close>.\<close>

theorem unit_id_schema_counterexample:
  "upserted_ids (fst (ingest_text demo_ingest_env ''data/uploads/a.txt'' ''D'' ''T''))
     = [''txt::D::0'', ''txt::D::1'', ''txt::D::2'']
   \<and> spec_unit_id ''txt'' ''D'' None (ChunkIndex 0) = ''txt::D::c0''
   \<and> hd (upserted_ids (fst (ingest_text demo_ingest_env ''data/uploads/a.txt'' ''D'' ''T'')))
       \<noteq> spec_unit_id ''txt'' ''D'' None (ChunkIndex 0)"
  by (simp add: demo_text_effects spec_unit_id_def str_nat.simps digit_char_def)

theorem unit_id_schema_witness:
  "UpsertText [''txt::D::0'', ''txt::D::1'', ''txt::D::2''] [[1], [1], [1]]
        (map (text_meta ''D'' ''data/uploads/a.txt'' ''T'') [0, 1, 2]) [''A'', ''B'', ''C'']
     \<in> set (fst (ingest_text demo_ingest_env ''data/uploads/a.txt'' ''D'' ''T''))
   \<and> list_all2 (\<lambda>u m. \<exists>i. m ''chunk_index'' = Some (PInt (int i)) \<and> m ''page'' = None
                    \<and> u = ''txt::'' @ ''D'' @ ''::'' @ str_nat i)
        [''txt::D::0'', ''txt::D::1'', ''txt::D::2'']
        (map (text_meta ''D'' ''data/uploads/a.txt'' ''T'') [0, 1, 2])
   \<and> upserted_ids (fst (ingest_image demo_ingest_env ''data/uploads/a.png'' ''D'' ''T''))
       = [''img::D'']
   \<and> upserted_ids (fst (ingest_pdf demo_ingest_env ''data/uploads/a.pdf'' ''D'' ''T''))
       = [''pdftext::D::p1::c0'', ''pdftext::D::p1::c1'',
          ''pdfimg::D::p1::page1.png'', ''pdfimg::D::p2::page2.png'']"
proof -
  have a: "UpsertText [''txt::D::0'', ''txt::D::1'', ''txt::D::2''] [[1], [1], [1]]
        (map (text_meta ''D'' ''data/uploads/a.txt'' ''T'') [0, 1, 2]) [''A'', ''B'', ''C'']
     \<in> set (fst (ingest_text demo_ingest_env ''data/uploads/a.txt'' ''D'' ''T''))"
    unfolding demo_text_effects by simp
  note h = unit_id_schema[of demo_ingest_env "''data/uploads/a.txt''" "''D''" "''T''",
      THEN conjunct1, rule_format, OF a]
  have b: "list_all2 (\<lambda>u m. \<exists>i. m ''chunk_index'' = Some (PInt (int i)) \<and> m ''page'' = None
                    \<and> u = ''txt::'' @ ''D'' @ ''::'' @ str_nat i)
        [''txt::D::0'', ''txt::D::1'', ''txt::D::2'']
        (map (text_meta ''D'' ''data/uploads/a.txt'' ''T'') [0, 1, 2])"
    by (rule h)
  have c: "upserted_ids (fst (ingest_image demo_ingest_env ''data/uploads/a.png'' ''D'' ''T''))
       = [''img::D'']"
    by (simp add: ingest_image_def ocr_image_def or_empty_def call_def ext_def lift_def ret_def
        demo_ingest_env_def Let_def)
  show ?thesis by (intro conjI) (rule a, rule b, rule c, rule demo_pdf_ids)
qed

subsection \<open>The chunker against its specification\<close>

lemma chunk_paragraphs_chunks_of: "chunk_paragraphs t = chunks_of (split_blank t)"
  by (simp add: chunk_paragraphs_def chunks_of_def filter_map comp_def)

lemma spec_chunks_chunks_of: "spec_chunks t = chunks_of (map (join [NL]) (paragraphs (split_lines t)))"
  by (simp add: spec_chunks_def chunks_of_def comp_def)

lemma chunks_of_Cons:
  "chunks_of (s # segs) = (if strip s = [] then [] else [strip s]) @ chunks_of segs"
  by (simp add: chunks_of_def)

lemma chunks_of_Nil [simp]: "chunks_of [] = []"
  by (simp add: chunks_of_def)

lemma strip_Nil [simp]: "strip [] = []"
  by (simp add: strip_def)

lemma strip_NL_Cons [simp]: "strip (NL # s) = strip s"
  by (simp add: strip_def)

lemma strip_snoc_NL [simp]: "strip (s @ [NL]) = strip s"
proof (cases "\<forall>c \<in> set s. is_space c")
  case True
  then have "strip (s @ [NL]) = []" "strip s = []" by (simp_all add: strip_empty_iff)
  then show ?thesis by simp
next
  case False
  then have "dropWhile is_space (s @ [NL]) = dropWhile is_space s @ [NL]"
    by (auto simp: dropWhile_append1)
  then show ?thesis by (simp add: strip_def)
qed

lemma push_Cons [simp]: "push p (seg # rest) = (p @ seg) # rest"
  by (simp add: push_def)

lemma push_push: "push p (push q segs) = push (p @ q) segs"
  by (cases segs) (simp_all add: push_def)

lemma push_Nil_left: "segs \<noteq> [] \<Longrightarrow> push [] segs = segs"
  by (cases segs) simp_all

lemma split_lines_nonempty [simp]: "split_lines t \<noteq> []"
  by (induction t) (simp_all add: push_def split: list.split)

lemma paragraphs_nonempty [simp]: "paragraphs ls \<noteq> []"
  by (induction ls) (simp_all add: push_def split: list.split)

text \<open>The code on a text whose first line \<open>l\<close> is given.\<close>

lemma split_blank_line: "NL \<notin> set l \<Longrightarrow> split_blank l = [l]"
  by (induction l rule: split_blank.induct) auto

lemma split_blank_line_end: "NL \<notin> set l \<Longrightarrow> split_blank (l @ [NL]) = [l @ [NL]]"
proof (induction l)
  case Nil
  then show ?case by simp
next
  case (Cons x l)
  then obtain y r where yr: "l @ [NL] = y # r" by (cases "l @ [NL]") auto
  from Cons have "x \<noteq> NL" by auto
  then have "split_blank (x # y # r) = push [x] (split_blank (y # r))" by simp
  with Cons yr show ?case by simp
qed

lemma split_blank_line_blank:
  "NL \<notin> set l \<Longrightarrow> split_blank (l @ NL # NL # t) = l # split_blank t"
proof (induction l)
  case Nil
  then show ?case by simp
next
  case (Cons x l)
  then obtain y r where yr: "l @ NL # NL # t = y # r" by (cases "l @ NL # NL # t") auto
  from Cons have "x \<noteq> NL" by auto
  then have "split_blank (x # y # r) = push [x] (split_blank (y # r))" by simp
  with Cons yr show ?case by simp
qed

lemma split_blank_line_next:
  "NL \<notin> set l \<Longrightarrow> c \<noteq> NL \<Longrightarrow>
     split_blank (l @ NL # c # t) = push (l @ [NL]) (split_blank (c # t))"
proof (induction l)
  case Nil
  then show ?case by simp
next
  case (Cons x l)
  then obtain y r where yr: "l @ NL # c # t = y # r" by (cases "l @ NL # c # t") auto
  from Cons have "x \<noteq> NL" by auto
  then have "split_blank (x # y # r) = push [x] (split_blank (y # r))" by simp
  with Cons yr show ?case by (simp add: push_push)
qed

lemma chunks_split_blank_NL: "chunks_of (split_blank (NL # t)) = chunks_of (split_blank t)"
proof (induction t rule: length_induct)
  case (1 t)
  show ?case
  proof (cases t)
    case Nil
    then show ?thesis by (simp add: chunks_of_Cons)
  next
    case (Cons c t')
    show ?thesis
    proof (cases "c = NL")
      case True
      with Cons 1 have "chunks_of (split_blank (NL # t')) = chunks_of (split_blank t')" by simp
      with True Cons show ?thesis by (simp add: chunks_of_Cons)
    next
      case False
      obtain s0 rest where sb: "split_blank (c # t') = s0 # rest" by (rule split_blank_cases)
      with False Cons show ?thesis by (simp add: chunks_of_Cons)
    qed
  qed
qed

text \<open>The specification on the same texts.\<close>

lemma split_lines_line: "NL \<notin> set l \<Longrightarrow> split_lines l = [l]"
  by (induction l) auto

lemma split_lines_line_next: "NL \<notin> set l \<Longrightarrow> split_lines (l @ NL # t) = l # split_lines t"
  by (induction l) auto

lemma first_line:
  obtains l where "NL \<notin> set l" "t = l"
  | l t' where "NL \<notin> set l" "t = l @ NL # t'"
proof (cases "NL \<in> set t")
  case False
  then show ?thesis using that(1) by blast
next
  case True
  then obtain l t' where "t = l @ NL # t'" "NL \<notin> set l"
    by (auto dest: split_list_first)
  then show ?thesis using that(2) by blast
qed

lemma join_snoc_pending: "join [NL] (pg @ [l]) = pending pg @ l"
  by (cases "pg = []") (simp_all add: pending_def join_append_one)

lemma pending_snoc: "pending (pg @ [l]) = pending pg @ l @ [NL]"
  by (simp add: pending_def join_snoc_pending[unfolded pending_def])

lemma pending_Nil [simp]: "pending [] = []"
  by (simp add: pending_def)

lemma chunker_refines_aux:
  "chunks_of (split_blank t) = chunks_of (map (join [NL]) (paragraphs (split_lines t)))
   \<and> (t \<noteq> [] \<and> hd t \<noteq> NL \<longrightarrow>
        (\<forall>pg. chunks_of (push (pending pg) (split_blank t))
              = chunks_of (map (join [NL]) (push pg (paragraphs (split_lines t))))))"
proof (induction t rule: length_induct)
  case (1 t)
  have ihP: "chunks_of (split_blank u) = chunks_of (map (join [NL]) (paragraphs (split_lines u)))"
    if "length u < length t" for u
    using 1 that by blast
  have ihH: "chunks_of (push (pending pg) (split_blank u))
              = chunks_of (map (join [NL]) (push pg (paragraphs (split_lines u))))"
    if "length u < length t" "u \<noteq> []" "hd u \<noteq> NL" for u pg
    using 1 that by blast
  have H: "chunks_of (push (pending pg) (split_blank t))
              = chunks_of (map (join [NL]) (push pg (paragraphs (split_lines t))))"
    if ne: "t \<noteq> []" and hd: "hd t \<noteq> NL" for pg
  proof (cases t rule: first_line)
    case (1 l)
    with ne have l: "l \<noteq> []" by simp
    have "split_blank t = [l]" using 1 by (simp add: split_blank_line)
    moreover have "paragraphs (split_lines t) = [[l]]"
      using 1 l by (simp add: split_lines_line)
    ultimately show ?thesis by (simp add: chunks_of_Cons join_snoc_pending)
  next
    case (2 l t')
    with ne hd have l: "l \<noteq> []" by (cases l) auto
    show ?thesis
    proof (cases t')
      case Nil
      have "split_blank t = [l @ [NL]]" using 2 Nil by (simp add: split_blank_line_end)
      moreover have "paragraphs (split_lines t) = [[l], []]"
        using 2 Nil l by (simp add: split_lines_line_next)
      ultimately show ?thesis
        using strip_snoc_NL[of "pending pg @ l"]
        by (simp add: chunks_of_Cons join_snoc_pending)
    next
      case (Cons c t'')
      show ?thesis
      proof (cases "c = NL")
        case True
        have sb: "split_blank t = l # split_blank t''"
          using 2 Cons True by (simp add: split_blank_line_blank)
        have sl: "paragraphs (split_lines t) = [l] # paragraphs (split_lines t'')"
          using 2 Cons True l by (simp add: split_lines_line_next)
        have "length t'' < length t" using 2 Cons by simp
        from ihP[OF this] show ?thesis
          by (simp add: sb sl chunks_of_Cons join_snoc_pending)
      next
        case False
        have sb: "split_blank t = push (l @ [NL]) (split_blank (c # t''))"
          using 2 Cons False by (simp add: split_blank_line_next)
        have sl: "paragraphs (split_lines t) = push [l] (paragraphs (split_lines (c # t'')))"
          using 2 Cons l by (simp add: split_lines_line_next)
        have "length (c # t'') < length t" using 2 Cons by simp
        from ihH[OF this, of "pg @ [l]"] False show ?thesis
          by (simp add: sb sl push_push pending_snoc)
      qed
    qed
  qed
  have P: "chunks_of (split_blank t) = chunks_of (map (join [NL]) (paragraphs (split_lines t)))"
  proof (cases t)
    case Nil
    then show ?thesis by (simp add: chunks_of_Cons)
  next
    case (Cons c t')
    show ?thesis
    proof (cases "c = NL")
      case True
      have "length t' < length t" using Cons by simp
      from ihP[OF this] True Cons show ?thesis
        by (simp add: chunks_split_blank_NL chunks_of_Cons del: split_blank.simps)
    next
      case False
      with Cons have "t \<noteq> []" "hd t \<noteq> NL" by simp_all
      from H[OF this, of "[]"] show ?thesis by (simp add: push_Nil_left)
    qed
  qed
  from P H show ?case by blast
qed

lemma chunker_refines: "chunk_paragraphs t = spec_chunks t"
  using chunker_refines_aux[of t]
  by (simp add: chunk_paragraphs_chunks_of spec_chunks_chunks_of)

subsection \<open>Trimmed chunks, single blocks\<close>

lemma last_dropWhile: "dropWhile P xs \<noteq> [] \<Longrightarrow> last (dropWhile P xs) = last xs"
  by (induction xs) (auto split: if_splits)

lemma strip_trimmed:
  assumes "strip s \<noteq> []"
  shows "\<not> is_space (hd (strip s)) \<and> \<not> is_space (last (strip s))"
proof -
  let ?a = "dropWhile is_space s" and ?b = "dropWhile is_space (rev (dropWhile is_space s))"
  from assms have b: "?b \<noteq> []" by (simp add: strip_def)
  have a: "?a \<noteq> []"
  proof
    assume "?a = []"
    then have "?b = []" by (simp only: rev.simps dropWhile.simps)
    with b show False by simp
  qed
  have "last (strip s) = hd ?b" using b by (simp add: strip_def last_rev)
  moreover have "\<not> is_space (hd ?b)" using b by (rule hd_dropWhile)
  moreover have "hd (strip s) = last ?b" using b by (simp add: strip_def hd_rev)
  moreover have "last ?b = last (rev ?a)" using b by (rule last_dropWhile)
  moreover have "last (rev ?a) = hd ?a" using a by (simp add: last_rev)
  moreover have "\<not> is_space (hd ?a)" using a by (rule hd_dropWhile)
  ultimately show ?thesis by simp
qed

lemma chunk_trimmed:
  "c \<in> set (chunk_paragraphs t) \<Longrightarrow> c \<noteq> [] \<and> \<not> is_space (hd c) \<and> \<not> is_space (last c)"
  using strip_trimmed by (auto simp: chunk_paragraphs_def)

lemma split_blank_single:
  "(\<forall>u v. t \<noteq> u @ NL # NL # v) \<Longrightarrow> split_blank t = [t]"
proof (induction t rule: split_blank.induct)
  case 1
  then show ?case by simp
next
  case (2 c)
  then show ?case by simp
next
  case (3 c d cs)
  from 3(3) have "c # d # cs \<noteq> [] @ NL # NL # cs" by blast
  then have n: "\<not> (c = NL \<and> d = NL)" by simp
  have "d # cs \<noteq> u @ NL # NL # v" for u v
    using 3(3)[rule_format, of "c # u" v] by simp
  with 3(2)[OF n] have "split_blank (d # cs) = [d # cs]" by blast
  with n show ?case by simp
qed

lemma chunk_single_block:
  assumes "\<forall>u v. t \<noteq> u @ NL # NL # v" "strip t \<noteq> []"
  shows "chunk_paragraphs t = [strip t]"
  using assms by (simp add: chunk_paragraphs_def split_blank_single)

text \<open>
  Claim C5, with a fully blank line read as a line that holds no character. For every
  text the chunks the code computes are the chunks of the specification: the paragraphs
  between runs of one or more fully blank lines, each trimmed, the empty ones dropped,
  in the order of the text. Every chunk is non-empty and neither starts nor ends with
  white space. The text \<open>A\n\nB\n\n\nC\<close> gives the chunks \<open>A\<close>, \<open>B\<close>, \<open>C\<close>. A block that
  holds no two consecutive newlines and is not all white space gives exactly one chunk,
  its trimmed text; a text of white space only gives no chunk.
\<close>

theorem chunker_contract:
  "chunk_paragraphs t = spec_chunks t
   \<and> (\<forall>c \<in> set (chunk_paragraphs t). c \<noteq> [] \<and> \<not> is_space (hd c) \<and> \<not> is_space (last c))
   \<and> chunk_paragraphs ''A\<newline>\<newline>B\<newline>\<newline>\<newline>C'' = [''A'', ''B'', ''C'']
   \<and> ((\<forall>u v. t \<noteq> u @ NL # NL # v) \<and> strip t \<noteq> [] \<longrightarrow> chunk_paragraphs t = [strip t])
   \<and> ((\<forall>c \<in> set t. is_space c) \<longrightarrow> chunk_paragraphs t = [])"
proof -
  have c2: "\<forall>c \<in> set (chunk_paragraphs t). c \<noteq> [] \<and> \<not> is_space (hd c) \<and> \<not> is_space (last c)"
    using chunk_trimmed by blast
  have c3: "chunk_paragraphs ''A\<newline>\<newline>B\<newline>\<newline>\<newline>C'' = [''A'', ''B'', ''C'']"
    by (simp add: chunk_paragraphs_def strip_def is_space_def)
  have c4: "(\<forall>u v. t \<noteq> u @ NL # NL # v) \<and> strip t \<noteq> [] \<longrightarrow> chunk_paragraphs t = [strip t]"
    using chunk_single_block by blast
  have c5: "(\<forall>c \<in> set t. is_space c) \<longrightarrow> chunk_paragraphs t = []"
    by (simp add: chunk_paragraphs_empty_iff)
  show ?thesis by (intro conjI) (rule chunker_refines, rule c2, rule c3, rule c4, rule c5)
qed

theorem chunker_contract_witness:
  "(\<forall>u v. ''a\<newline>b '' \<noteq> u @ NL # NL # v)
   \<and> strip ''a\<newline>b '' = ''a\<newline>b''
   \<and> chunk_paragraphs ''a\<newline>b '' = [''a\<newline>b'']
   \<and> spec_chunks ''a\<newline>b '' = [''a\<newline>b'']
   \<and> chunk_paragraphs '' \<newline>\<newline> '' = []
   \<and> spec_chunks '' x\<newline>\<newline>\<newline>y\<newline>z\<newline>\<newline>'' = [''x'', ''y\<newline>z'']"
proof -
  have h: "\<forall>u v. ''a\<newline>b '' \<noteq> u @ NL # NL # v"
    by (auto simp: Cons_eq_append_conv)
  have s: "strip ''a\<newline>b '' = ''a\<newline>b''"
    by (simp add: strip_def is_space_def)
  note t = chunker_contract[of "''a\<newline>b ''"]
  from t[THEN conjunct2, THEN conjunct2, THEN conjunct2, THEN conjunct1] h s
  have c: "chunk_paragraphs ''a\<newline>b '' = [''a\<newline>b'']" by simp
  have d: "spec_chunks ''a\<newline>b '' = [''a\<newline>b'']"
    unfolding t[THEN conjunct1, symmetric] by (rule c)
  have w: "\<forall>c \<in> set '' \<newline>\<newline> ''. is_space c" by (simp add: is_space_def)
  from chunker_contract[of "'' \<newline>\<newline> ''"] w have e: "chunk_paragraphs '' \<newline>\<newline> '' = []" by blast
  have g: "chunk_paragraphs '' x\<newline>\<newline>\<newline>y\<newline>z\<newline>\<newline>'' = [''x'', ''y\<newline>z'']"
    by (simp add: chunk_paragraphs_def strip_def is_space_def)
  have f: "spec_chunks '' x\<newline>\<newline>\<newline>y\<newline>z\<newline>\<newline>'' = [''x'', ''y\<newline>z'']"
    unfolding chunker_contract[of "'' x\<newline>\<newline>\<newline>y\<newline>z\<newline>\<newline>''", THEN conjunct1, symmetric]
    by (rule g)
  show ?thesis by (intro conjI) (rule h, rule s, rule c, rule d, rule e, rule f)
qed

end
